theory Spec2Isabelle
  imports Main "HOL-Library.Char_ord" "HOL-Library.List_Lexorder" "HOL-Library.Sublist"
begin

section \<open>Python strings and exceptions\<close>

text \<open>
  The generators are Python scripts over \<open>str\<close>. A string is modelled as a
  \<open>char list\<close>; a \<open>char\<close> stands for one code point below 256. In that range
  the regular-expression class \<open>\d\<close> is exactly \<open>0\<close>..\<open>9\<close> and \<open>[a-z]\<close> is
  exactly \<open>a\<close>..\<open>z\<close>. Strings are compared as Python compares them, code point by
  code point (the lexicographic order of \<open>List_Lexorder\<close> over \<open>Char_ord\<close>).
\<close>

datatype py_error =
  ValueError | IndexError | TypeError | KeyError | AttributeError | ExpatError | SystemExit

definition is_lower :: "char \<Rightarrow> bool" where
  "is_lower c \<longleftrightarrow> CHR ''a'' \<le> c \<and> c \<le> CHR ''z''"

definition is_digit :: "char \<Rightarrow> bool" where
  "is_digit c \<longleftrightarrow> CHR ''0'' \<le> c \<and> c \<le> CHR ''9''"

text \<open>\<open>str.upper()\<close>, on the letters \<open>a\<close>..\<open>z\<close> (the only ones it is applied to).\<close>

definition upper_char :: "char \<Rightarrow> char" where
  "upper_char c = (if is_lower c then char_of (of_char c - (32::nat)) else c)"

definition upper :: "string \<Rightarrow> string" where
  "upper s = map upper_char s"

section \<open>Target-site validation\<close>

subsection \<open>\<open>umn_ec2_topology_generator.py\<close>: \<open>UMNTopologyGenerator.__init__\<close>\<close>

text \<open>
  \<open>re.match(r'([a-z]+\d+)-(\d+)', site)\<close>: an anchored prefix match. The three
  character classes and the hyphen are pairwise disjoint, so the greedy runs are the
  only way to match and backtracking never finds another one: the letters are the
  longest run of \<open>[a-z]\<close>, the digits the longest run of \<open>\d\<close> after it. The result is
  the pair of groups (1) and (2).
\<close>

definition re_match_site :: "string \<Rightarrow> (string \<times> string) option" where
  "re_match_site site =
     (let letters = takeWhile is_lower site;
          rest1 = dropWhile is_lower site;
          digits = takeWhile is_digit rest1;
          rest2 = dropWhile is_digit rest1
      in if letters = [] \<or> digits = [] then None
         else (case rest2 of
                 [] \<Rightarrow> None
               | c # rest3 \<Rightarrow>
                   if c = CHR ''-'' \<and> takeWhile is_digit rest3 \<noteq> []
                   then Some (letters @ digits, takeWhile is_digit rest3)
                   else None))"

record umn_generator =
  gen_site :: string
  gen_brick_file :: string
  gen_output_dir :: string
  root_az :: string
  root_dc :: string

definition umn_generator_init :: "string \<Rightarrow> string \<Rightarrow> string \<Rightarrow> py_error + umn_generator" where
  "umn_generator_init site brick_file output_dir =
     (case re_match_site site of
        Some (az, dc) \<Rightarrow>
          Inr \<lparr>gen_site = site, gen_brick_file = brick_file, gen_output_dir = output_dir,
               root_az = az, root_dc = dc\<rparr>
      | None \<Rightarrow> Inl ValueError)"

subsection \<open>\<open>generate_brick_url.py\<close>: \<open>construct_brick_url\<close>\<close>

text \<open>\<open>re.match(r'^([a-z]{3})', site)\<close>: the first three characters, all in \<open>a\<close>..\<open>z\<close>.\<close>

definition re_match_region :: "string \<Rightarrow> string option" where
  "re_match_region site =
     (if 3 \<le> length site \<and> list_all is_lower (take 3 site) then Some (take 3 site) else None)"

definition construct_brick_url :: "string \<Rightarrow> string \<Rightarrow> py_error + string" where
  "construct_brick_url site fabric =
     (case re_match_region site of
        None \<Rightarrow> Inl ValueError
      | Some region_code \<Rightarrow>
          (let region_upper = upper region_code;
               package = ''SwitchBuilderBrickDef-EC2-'' @ region_upper;
               path = ''configuration/etc/brick/EC2-'' @ region_upper;
               brick_file = region_code @ ''-'' @ fabric @ ''.brick''
           in Inr (''https://code.amazon.com/packages/'' @ package @ ''/blobs/mainline/--/''
                   @ path @ ''/'' @ brick_file)))"

subsection \<open>\<open>dsn_fabric_generator.py\<close>: \<open>construct_urls\<close>\<close>

text \<open>\<open>site[:3]\<close> is a slice: on a shorter string it is the whole string, never an error.\<close>

definition dsn_url :: "string \<Rightarrow> string \<Rightarrow> string \<Rightarrow> string" where
  "dsn_url region site r =
     ''https://code.amazon.com/packages/GenevaBuilderDCNE/blobs/mainline/--/targetspec/dc-corp-''
     @ region @ ''/'' @ site @ ''-co-agg-r/'' @ site @ ''-co-agg-'' @ r @ ''/dsn.attr''"

definition construct_urls :: "string \<Rightarrow> string list" where
  "construct_urls site =
     (let region = take 3 site
      in [dsn_url region site ''r3'', dsn_url region site ''r1'', dsn_url region site ''r2''])"

subsection \<open>The naming pattern, in the specification's words\<close>

text \<open>
  A site string follows the expected naming pattern when it begins with lowercase
  letters, then digits, then a hyphen, then digits.
\<close>

definition site_naming_pattern :: "string \<Rightarrow> bool" where
  "site_naming_pattern s \<longleftrightarrow>
     (\<exists>a d k r. s = a @ d @ ''-'' @ k @ r
        \<and> a \<noteq> [] \<and> list_all is_lower a
        \<and> d \<noteq> [] \<and> list_all is_digit d
        \<and> k \<noteq> [] \<and> list_all is_digit k)"

section \<open>Dictionaries and string helpers\<close>

text \<open>
  A Python \<open>dict\<close> keeps its keys unique and in insertion order: an association
  list. \<open>d[k] = v\<close> replaces the value of a key already present where it stands and
  appends a new key at the end; \<open>d.get(k)\<close> is \<open>map_of d k\<close>. A dictionary that is
  only looked up is a map.
\<close>

fun dict_set :: "'k \<Rightarrow> 'v \<Rightarrow> ('k \<times> 'v) list \<Rightarrow> ('k \<times> 'v) list" where
  "dict_set k v [] = [(k, v)]"
| "dict_set k v ((k', v') # d) =
     (if k' = k then (k, v) # d else (k', v') # dict_set k v d)"

text \<open>\<open>d[k].append(x)\<close> and \<open>d[k].extend(xs)\<close> on a \<open>defaultdict(list)\<close>.\<close>

definition dict_extend :: "'k \<Rightarrow> 'v list \<Rightarrow> ('k \<times> 'v list) list \<Rightarrow> ('k \<times> 'v list) list" where
  "dict_extend k xs d = dict_set k ((case map_of d k of None \<Rightarrow> [] | Some ys \<Rightarrow> ys) @ xs) d"

definition dict_append :: "'k \<Rightarrow> 'v \<Rightarrow> ('k \<times> 'v list) list \<Rightarrow> ('k \<times> 'v list) list" where
  "dict_append k x d = dict_extend k [x] d"

text \<open>\<open>sub in s\<close> on strings.\<close>

fun contains :: "string \<Rightarrow> string \<Rightarrow> bool" where
  "contains sub [] = (sub = [])"
| "contains sub (c # s) = (prefix sub (c # s) \<or> contains sub s)"

text \<open>\<open>sep.join(xs)\<close>.\<close>

fun join :: "string \<Rightarrow> string list \<Rightarrow> string" where
  "join sep [] = []"
| "join sep [x] = x"
| "join sep (x # y # xs) = x @ sep @ join sep (y # xs)"

text \<open>\<open>tuple(sorted([a, b]))\<close>: the sort is stable, so equal or ordered elements stay.\<close>

definition sorted_pair :: "string \<Rightarrow> string \<Rightarrow> string \<times> string" where
  "sorted_pair a b = (if b < a then (b, a) else (a, b))"

text \<open>The truth value of \<open>None\<close> and of the empty string is false.\<close>

definition falsy :: "string option \<Rightarrow> bool" where
  "falsy v = (case v of None \<Rightarrow> True | Some s \<Rightarrow> s = [])"

section \<open>Connection canonicalizers\<close>

text \<open>A connection \<open>{'source': .., 'target': .., 'type': ..}\<close>.\<close>

record conn =
  source :: string
  target :: string
  ctype :: string

text \<open>\<open>device_groups.get(name, name)\<close>.\<close>

definition resolve :: "(string \<rightharpoonup> string) \<Rightarrow> string \<Rightarrow> string" where
  "resolve device_groups name = (case device_groups name of Some g \<Rightarrow> g | None \<Rightarrow> name)"

subsection \<open>\<open>dsn_fabric_generator.py\<close> and \<open>generate_bjs11_corp_nap.py\<close>: \<open>deduplicate_connections\<close>\<close>

text \<open>
  The two files hold the same function, character for character. The dictionary
  \<open>unique_connections\<close> is keyed by the sorted pair of group names followed by the
  connection type; the loop is the recursion, the dictionary its accumulator.
\<close>

fun dedup_typed_loop ::
  "(string \<rightharpoonup> string) \<Rightarrow> conn list \<Rightarrow> (((string \<times> string) \<times> string) \<times> conn) list
    \<Rightarrow> (((string \<times> string) \<times> string) \<times> conn) list" where
  "dedup_typed_loop device_groups [] unique_connections = unique_connections"
| "dedup_typed_loop device_groups (c # connections) unique_connections =
     (let src = resolve device_groups (source c);
          tgt = resolve device_groups (target c)
      in if src = tgt then dedup_typed_loop device_groups connections unique_connections
         else (let key = (sorted_pair src tgt, ctype c)
               in if key \<in> set (map fst unique_connections)
                  then dedup_typed_loop device_groups connections unique_connections
                  else dedup_typed_loop device_groups connections
                         (unique_connections
                          @ [(key, \<lparr>source = src, target = tgt, ctype = ctype c\<rparr>)])))"

definition dsn_deduplicate_connections :: "conn list \<Rightarrow> (string \<rightharpoonup> string) \<Rightarrow> conn list" where
  "dsn_deduplicate_connections connections device_groups =
     map snd (dedup_typed_loop device_groups connections [])"

definition corp_nap_deduplicate_connections :: "conn list \<Rightarrow> (string \<rightharpoonup> string) \<Rightarrow> conn list" where
  "corp_nap_deduplicate_connections connections device_groups =
     map snd (dedup_typed_loop device_groups connections [])"

subsection \<open>\<open>umn_prod_topology_generator.py\<close>: \<open>deduplicate_connections\<close>\<close>

text \<open>Here the key is the sorted pair alone.\<close>

fun dedup_pair_loop ::
  "(string \<rightharpoonup> string) \<Rightarrow> conn list \<Rightarrow> ((string \<times> string) \<times> conn) list
    \<Rightarrow> ((string \<times> string) \<times> conn) list" where
  "dedup_pair_loop device_groups [] unique_connections = unique_connections"
| "dedup_pair_loop device_groups (c # connections) unique_connections =
     (let src = resolve device_groups (source c);
          tgt = resolve device_groups (target c)
      in if src = tgt then dedup_pair_loop device_groups connections unique_connections
         else (let key = sorted_pair src tgt
               in if key \<in> set (map fst unique_connections)
                  then dedup_pair_loop device_groups connections unique_connections
                  else dedup_pair_loop device_groups connections
                         (unique_connections
                          @ [(key, \<lparr>source = src, target = tgt, ctype = ctype c\<rparr>)])))"

definition umn_prod_deduplicate_connections :: "conn list \<Rightarrow> (string \<rightharpoonup> string) \<Rightarrow> conn list" where
  "umn_prod_deduplicate_connections connections device_groups =
     map snd (dedup_pair_loop device_groups connections [])"

section \<open>Diagram documents\<close>

text \<open>
  The emitters build an XML tree and print it. The model keeps the tree: the list of
  \<open>mxCell\<close> elements under \<open>root\<close>, after the two fixed parent cells \<open>0\<close> and \<open>1\<close>, in
  document order, with the attribute values that a reader of the written text gets.
  A shape is a \<open>Vertex\<close> with its \<open>mxGeometry\<close>, a connector an \<open>Edge\<close>. The
  identifier \<open>str(cell_id)\<close> is kept as the number it prints.
\<close>

datatype cell =
  Vertex (cell_ident: nat) (cell_value: string) (cell_style: string)
         (geom_x: nat) (geom_y: nat) (geom_width: nat) (geom_height: nat)
| Edge (cell_ident: nat) (edge_value: "string option") (cell_style: string)
       (edge_source: nat) (edge_target: nat)

fun is_edge :: "cell \<Rightarrow> bool" where
  "is_edge (Edge i v s a b) = True"
| "is_edge (Vertex i v s x y w h) = False"

subsection \<open>Writing the document\<close>

text \<open>
  Both emitters end with \<open>ET.tostring(mxfile, encoding='unicode')\<close>,
  \<open>minidom.parseString\<close> and \<open>toprettyxml\<close>. \<open>ET.tostring\<close> escapes the markup characters
  and writes every other character of an attribute as it is; the parser then refuses
  the text (\<open>ExpatError\<close>) if it holds a character that XML 1.0 does not allow: below
  256 these are the control characters other than tab, line feed and carriage return.
\<close>

definition xml_char :: "char \<Rightarrow> bool" where
  "xml_char c \<longleftrightarrow> (32::nat) \<le> of_char c \<or> c = CHR 0x09 \<or> c = CHR 0x0A \<or> c = CHR 0x0D"

text \<open>
  \<open>toprettyxml\<close> (Python 3.11, \<open>minidom._write_data\<close>) escapes \<open>&\<close>, \<open><\<close>, \<open>>\<close> and \<open>"\<close> and
  writes tab, line feed and carriage return of an attribute value as they are. A
  reader of the written text gets the value after the normalisation of XML 1.0: a
  carriage return with the line feed that follows it, and every other carriage
  return, line feed or tab, is one space.
\<close>

fun attribute_text :: "string \<Rightarrow> string" where
  "attribute_text [] = []"
| "attribute_text (c # s) =
     (if c = CHR 0x0D
      then (case s of
              [] \<Rightarrow> [CHR '' '']
            | d # t \<Rightarrow> if d = CHR 0x0A then CHR '' '' # attribute_text t
                       else CHR '' '' # attribute_text s)
      else if c = CHR 0x0A \<or> c = CHR 0x09 then CHR '' '' # attribute_text s
      else c # attribute_text s)"

fun cell_strings :: "cell \<Rightarrow> string list" where
  "cell_strings (Vertex i v s x y w h) = [v, s]"
| "cell_strings (Edge i v s a b) = (case v of None \<Rightarrow> [s] | Some t \<Rightarrow> [t, s])"

fun written_cell :: "cell \<Rightarrow> cell" where
  "written_cell (Vertex i v s x y w h) = Vertex i (attribute_text v) (attribute_text s) x y w h"
| "written_cell (Edge i v s a b) = Edge i (map_option attribute_text v) (attribute_text s) a b"

text \<open>
  \<open>names\<close> are the texts that the document holds outside the cells (the name of the
  diagram); the other attributes are constants and decimal numbers.
\<close>

definition write_document :: "string list \<Rightarrow> cell list \<Rightarrow> py_error + cell list" where
  "write_document names cells =
     (if list_all (list_all xml_char) (names @ concat (map cell_strings cells))
      then Inr (map written_cell cells)
      else Inl ExpatError)"

section \<open>\<open>topology_generator_agent.py\<close>: \<open>TopologyGeneratorAgent\<close>\<close>

definition DEVICE_COLORS :: "(string \<times> string) list" where
  "DEVICE_COLORS =
     [(''mgmt-cor'', ''#FFE6CC''), (''mgmt-cor-v'', ''#FFE6CC''), (''es-cor'', ''#D5E8D4''),
      (''fnc-cor'', ''#D5E8D4''), (''es-c1'', ''#DAE8FC''), (''es-mgmt'', ''#FFF2CC''),
      (''es-x1-mgmt'', ''#F8CECC''), (''tt-acc'', ''#E6D0DE''), (''cv1-agg'', ''#D0E0E3''),
      (''inter-az'', ''#E8E8E8'')]"

subsection \<open>\<open>categorize_device\<close>\<close>

record category =
  cat_site :: string
  device_type :: string
  cat_role :: string
  cat_color :: string
  is_target_site :: bool

text \<open>
  \<open>re.match(r'^([a-z]+\d+-\d+)', name)\<close> accepts the strings \<open>re_match_site\<close> accepts;
  its group is the two groups of that match with the hyphen between them.
\<close>

definition site_of_name :: "string \<Rightarrow> string" where
  "site_of_name name = (case re_match_site name of Some (az, dc) \<Rightarrow> az @ ''-'' @ dc | None \<Rightarrow> [])"

definition type_and_role :: "string \<Rightarrow> string \<times> string" where
  "type_and_role device_name =
     (if contains ''-mgmt-cor-r'' device_name then (''mgmt-cor'', ''Management Core'')
      else if contains ''-mgmt-cor-v'' device_name then (''mgmt-cor-v'', ''Virtual Mgmt Core'')
      else if contains ''-es-cor-r'' device_name \<or> contains ''-fnc-cor-r'' device_name
        then (''es-cor'', ''Edge Services Core'')
      else if contains ''-es-c1-b'' device_name \<and> contains ''-t1-r'' device_name
        then (''es-c1'', ''ES-C1 Compute'')
      else if contains ''-es-c1-mgmt'' device_name then (''es-c1'', ''ES-C1 Mgmt'')
      else if contains ''-es-e1-mgmt'' device_name then (''es-mgmt'', ''E1 Edge Mgmt'')
      else if contains ''-es-e2-mgmt'' device_name then (''es-mgmt'', ''E2 Edge Mgmt'')
      else if contains ''-es-x1-mgmt'' device_name then (''es-x1-mgmt'', ''X1 Mgmt'')
      else if contains ''-tt-acc'' device_name then (''tt-acc'', ''Transit Access'')
      else if contains ''-cv1-agg'' device_name then (''cv1-agg'', ''CV1 Agg'')
      else (''unknown'', ''Unknown''))"

definition categorize_device :: "string \<Rightarrow> string \<Rightarrow> category" where
  "categorize_device self_site device_name =
     (let site = site_of_name device_name;
          (dtype, role) = type_and_role device_name
      in \<lparr>cat_site = site, device_type = dtype, cat_role = role,
           cat_color = (case map_of DEVICE_COLORS dtype of Some c \<Rightarrow> c | None \<Rightarrow> ''#FFFFFF''),
           is_target_site = (site = self_site)\<rparr>)"

subsection \<open>\<open>group_devices\<close>\<close>

text \<open>
  \<open>re.sub(r'-r[12]$', '', device)\<close>. Without \<open>re.MULTILINE\<close>, \<open>$\<close> matches at the end of
  the string and also just before a newline that ends it; the two cannot both apply,
  so at most one occurrence is removed.
\<close>

definition strip_r12 :: "string \<Rightarrow> string" where
  "strip_r12 device =
     (if suffix ''-r1'' device \<or> suffix ''-r2'' device
      then take (length device - 3) device
      else if suffix (''-r1'' @ [CHR 0x0A]) device \<or> suffix (''-r2'' @ [CHR 0x0A]) device
      then take (length device - 4) device @ [CHR 0x0A]
      else device)"

definition console_group_devices :: "string list \<Rightarrow> (string \<times> string list) list" where
  "console_group_devices devices =
     foldl (\<lambda>groups device. dict_append (strip_r12 device) device groups) [] (sort devices)"

subsection \<open>\<open>extract_topology_data\<close>\<close>

text \<open>
  The brick data's \<open>NODES_AND_INTERFACES\<close>: per device, per interface, the details; of
  these the function reads \<open>remote_device\<close> and \<open>interface_type\<close> (\<open>None\<close>: key absent).
\<close>

record iface_details =
  remote_device :: "string option"
  interface_type :: "string option"

type_synonym brick_nodes = "(string \<times> (string \<times> iface_details) list) list"

record console_conn =
  conn_source :: string
  conn_destination :: string
  conn_interface :: string
  conn_interface_type :: string

definition iface_connections :: "string \<Rightarrow> (string \<times> iface_details) list \<Rightarrow> console_conn list" where
  "iface_connections device interfaces =
     concat (map (\<lambda>(iface, details).
        (case remote_device details of
           None \<Rightarrow> []
         | Some remote \<Rightarrow>
             if remote = [] then []
             else [\<lparr>conn_source = device, conn_destination = remote, conn_interface = iface,
                    conn_interface_type =
                      (case interface_type details of None \<Rightarrow> ''physical'' | Some t \<Rightarrow> t)\<rparr>]))
        interfaces)"

definition extract_connections :: "brick_nodes \<Rightarrow> console_conn list" where
  "extract_connections nodes_and_interfaces =
     concat (map (\<lambda>(device, interfaces). iface_connections device interfaces)
                 nodes_and_interfaces)"

definition extract_all_devices :: "brick_nodes \<Rightarrow> string set" where
  "extract_all_devices nodes_and_interfaces =
     fst ` set nodes_and_interfaces
     \<union> conn_destination ` set (extract_connections nodes_and_interfaces)"

definition type_group_step ::
  "string \<Rightarrow> (string \<times> string list) list \<Rightarrow> string \<times> string list \<Rightarrow> (string \<times> string list) list" where
  "type_group_step self_site type_groups item =
     (case item of (group_name, devices) \<Rightarrow>
        (let cat = categorize_device self_site (hd devices)
         in if device_type cat = ''es-c1'' then dict_extend ''es-c1'' devices type_groups
            else if device_type cat = ''es-mgmt'' then dict_extend ''es-mgmt'' devices type_groups
            else dict_set group_name devices type_groups))"

definition inter_type_group_step ::
  "string \<Rightarrow> (string \<times> string list) list \<Rightarrow> string \<times> string list \<Rightarrow> (string \<times> string list) list" where
  "inter_type_group_step self_site inter_type_groups item =
     (case item of (group_name, devices) \<Rightarrow>
        (let cat = categorize_device self_site (hd devices);
             site = site_of_name group_name
         in if device_type cat = ''es-c1''
              then dict_extend (site @ ''-es-c1'') devices inter_type_groups
            else if device_type cat = ''es-mgmt''
              then dict_extend (site @ ''-es-mgmt'') devices inter_type_groups
            else dict_set group_name devices inter_type_groups))"

record topology_data =
  td_intra_site :: "string list"
  td_inter_site :: "string list"
  td_intra_groups :: "(string \<times> string list) list"
  td_inter_groups :: "(string \<times> string list) list"
  td_type_groups :: "(string \<times> string list) list"
  td_connections :: "console_conn list"

text \<open>
  \<open>all_devices\<close> is a Python \<open>set\<close>, and the two comprehensions iterate it. The order
  in which a set of strings is iterated is not fixed by the language, so it is an
  argument here: \<open>iteration\<close> lists \<open>extract_all_devices\<close> once each, in the order of
  that run.
\<close>

text \<open>
  In its last branch the first grouping loop stores in \<open>type_groups[group_name]\<close> the
  list object of \<open>intra_groups[group_name]\<close> itself, so what a later \<open>extend\<close> adds to
  the one is in the other too: when the function returns, such a group of
  \<open>intra_groups\<close> holds what \<open>type_groups\<close> holds under its name.
\<close>

definition shared_groups ::
  "string \<Rightarrow> (string \<times> string list) list \<Rightarrow> (string \<times> string list) list
    \<Rightarrow> (string \<times> string list) list" where
  "shared_groups self_site intra_groups type_groups =
     map (\<lambda>(group_name, devices).
            (let cat = categorize_device self_site (hd devices)
             in if device_type cat = ''es-c1'' \<or> device_type cat = ''es-mgmt''
                then (group_name, devices)
                else (case map_of type_groups group_name of
                        Some shared \<Rightarrow> (group_name, shared)
                      | None \<Rightarrow> (group_name, devices))))
         intra_groups"

definition extract_topology_data :: "string \<Rightarrow> brick_nodes \<Rightarrow> string list \<Rightarrow> topology_data" where
  "extract_topology_data self_site nodes_and_interfaces iteration =
     (let connections = extract_connections nodes_and_interfaces;
          intra_site = filter (\<lambda>d. prefix self_site d) iteration;
          inter_site = filter (\<lambda>d. \<not> prefix self_site d) iteration;
          intra_groups = console_group_devices intra_site;
          inter_groups = console_group_devices inter_site;
          type_groups = foldl (type_group_step self_site) [] intra_groups;
          inter_type_groups = foldl (inter_type_group_step self_site) [] inter_groups
      in \<lparr>td_intra_site = intra_site, td_inter_site = inter_site,
           td_intra_groups = shared_groups self_site intra_groups type_groups,
           td_inter_groups = inter_type_groups,
           td_type_groups = type_groups, td_connections = connections\<rparr>)"

subsection \<open>\<open>generate_drawio_xml\<close>\<close>

record node =
  node_label :: string
  node_role :: string
  node_color :: string
  node_x :: nat
  node_y :: nat
  node_devices :: "string list"

text \<open>\<open>d.split('-r')\<close>: the pieces between the occurrences of \<open>-r\<close>, left to right.\<close>

fun split_dash_r :: "string \<Rightarrow> string \<Rightarrow> string list" where
  "split_dash_r piece (a # b # s) =
     (if a = CHR ''-'' \<and> b = CHR ''r'' then rev piece # split_dash_r [] s
      else split_dash_r (a # piece) (b # s))"
| "split_dash_r piece [a] = [rev (a # piece)]"
| "split_dash_r piece [] = [rev piece]"

definition replica_nums :: "string list \<Rightarrow> string list" where
  "replica_nums devices = map (\<lambda>d. last (split_dash_r [] d)) (sort devices)"

definition bracket_label :: "string \<Rightarrow> string list \<Rightarrow> string" where
  "bracket_label group_name devices =
     group_name @ ''-r['' @ join '','' (replica_nums devices) @ '']''"

definition intra_label :: "string \<Rightarrow> string \<Rightarrow> string list \<Rightarrow> string" where
  "intra_label self_site group_name devices =
     (if group_name = ''es-c1'' \<or> group_name = ''es-mgmt'' then self_site @ ''-'' @ group_name
      else if 1 < length devices then bracket_label group_name devices
      else hd devices)"

definition inter_label :: "string \<Rightarrow> string list \<Rightarrow> string" where
  "inter_label group_name devices =
     (if 1 < length devices then bracket_label group_name devices else hd devices)"

text \<open>The loop state of either loop: the \<open>nodes\<close> dictionary, \<open>row\<close> and \<open>col\<close>.\<close>

definition intra_node_step ::
  "string \<Rightarrow> (string \<times> node) list \<times> nat \<times> nat \<Rightarrow> string \<times> string list
    \<Rightarrow> (string \<times> node) list \<times> nat \<times> nat" where
  "intra_node_step self_site st item =
     (case (st, item) of ((nodes, row, col), (group_name, devices)) \<Rightarrow>
        if devices = [] then (nodes, row, col)
        else (let cat = categorize_device self_site (hd devices);
                  nodes' = dict_set group_name
                     \<lparr>node_label = intra_label self_site group_name devices,
                      node_role = cat_role cat, node_color = cat_color cat,
                      node_x = 120 + col * 280, node_y = 100 + row * 150,
                      node_devices = devices\<rparr> nodes
              in if 4 \<le> col + 1 then (nodes', row + 1, 0) else (nodes', row, col + 1)))"

definition inter_node_step ::
  "(string \<times> node) list \<times> nat \<times> nat \<Rightarrow> string \<times> string list
    \<Rightarrow> (string \<times> node) list \<times> nat \<times> nat" where
  "inter_node_step st item =
     (case (st, item) of ((nodes, row, col), (group_name, devices)) \<Rightarrow>
        if devices = [] then (nodes, row, col)
        else (let nodes' = dict_set group_name
                     \<lparr>node_label = inter_label group_name devices,
                      node_role = ''Inter-AZ'', node_color = ''#E8E8E8'',
                      node_x = 120 + col * 280, node_y = 100 + row * 150,
                      node_devices = devices\<rparr> nodes
              in if 5 \<le> col + 1 then (nodes', row + 1, 0) else (nodes', row, col + 1)))"

text \<open>
  \<open>sorted(d.items())\<close> compares the (key, value) pairs; the keys of a dictionary
  differ, so the keys alone decide.
\<close>

definition layout_nodes ::
  "string \<Rightarrow> (string \<times> string list) list \<Rightarrow> (string \<times> string list) list \<Rightarrow> (string \<times> node) list" where
  "layout_nodes self_site type_groups inter_groups =
     (case foldl (intra_node_step self_site) ([], 0, 0) (sort_key fst type_groups) of
        (nodes, row, col) \<Rightarrow>
          fst (foldl inter_node_step (nodes, row + 2, 0) (sort_key fst inter_groups)))"

subsection \<open>\<open>_build_xml\<close>\<close>

definition node_style :: "node \<Rightarrow> string" where
  "node_style node_data =
     (if node_role node_data = ''Inter-AZ''
      then ''rounded=1;whiteSpace=wrap;html=1;fillColor='' @ node_color node_data
           @ '';strokeColor=#666666;strokeWidth=2;fontStyle=0;fontSize=11;shadow=1;''
      else ''rounded=1;whiteSpace=wrap;html=1;fillColor='' @ node_color node_data
           @ '';strokeColor=#000000;strokeWidth=2;fontStyle=0;fontSize=12;shadow=1;'')"

definition node_cell :: "nat \<Rightarrow> node \<Rightarrow> cell" where
  "node_cell cell_id node_data =
     Vertex cell_id
       (''<b>'' @ node_label node_data @ ''</b><br/><i>'' @ node_role node_data @ ''</i>'')
       (node_style node_data) (node_x node_data) (node_y node_data) 220 90"

text \<open>
  The first loop: one shape per node, in the order of the dictionary. Its state is the
  cells written so far, \<open>node_ids\<close>, \<open>device_to_node\<close> and \<open>cell_id\<close>.
\<close>

fun vertex_loop ::
  "(string \<times> node) list \<Rightarrow> cell list \<times> (string \<rightharpoonup> nat) \<times> (string \<rightharpoonup> string) \<times> nat
    \<Rightarrow> cell list \<times> (string \<rightharpoonup> nat) \<times> (string \<rightharpoonup> string) \<times> nat" where
  "vertex_loop [] st = st"
| "vertex_loop ((node_key, node_data) # nodes) (cells, node_ids, device_to_node, cell_id) =
     vertex_loop nodes
       (cells @ [node_cell cell_id node_data],
        node_ids(node_key \<mapsto> cell_id),
        foldl (\<lambda>m device. m(device \<mapsto> node_key)) device_to_node (node_devices node_data),
        cell_id + 1)"

definition edge_style :: "string \<Rightarrow> string \<Rightarrow> string \<Rightarrow> string" where
  "edge_style self_site src dst =
     (if contains ''es-c1'' src \<or> contains ''es-c1'' dst
      then ''edgeStyle=orthogonalEdgeStyle;rounded=1;orthogonalLoop=1;jettySize=auto;html=1;strokeColor=#0066CC;strokeWidth=4;shadow=1;''
      else if cat_site (categorize_device self_site src) \<noteq> cat_site (categorize_device self_site dst)
      then ''edgeStyle=orthogonalEdgeStyle;rounded=1;orthogonalLoop=1;jettySize=auto;html=1;strokeColor=#999999;strokeWidth=2.5;shadow=1;''
      else ''edgeStyle=orthogonalEdgeStyle;rounded=1;orthogonalLoop=1;jettySize=auto;html=1;strokeColor=#333333;strokeWidth=2.5;shadow=1;'')"

text \<open>
  \<open>not src_node\<close> holds for \<open>None\<close> and for the empty string (\<open>falsy\<close>).
  \<open>node_ids[src_node]\<close> raises \<open>KeyError\<close> on a key that is missing.
\<close>

fun edge_loop ::
  "string \<Rightarrow> (string \<rightharpoonup> nat) \<Rightarrow> (string \<rightharpoonup> string) \<Rightarrow> console_conn list
    \<Rightarrow> cell list \<times> (string \<times> string) list \<times> nat \<Rightarrow> py_error + cell list" where
  "edge_loop self_site node_ids device_to_node [] (cells, added_connections, cell_id) = Inr cells"
| "edge_loop self_site node_ids device_to_node (c # connections) (cells, added_connections, cell_id) =
     (let src = conn_source c; dst = conn_destination c;
          src_node = device_to_node src; dst_node = device_to_node dst
      in if falsy src_node \<or> falsy dst_node
         then edge_loop self_site node_ids device_to_node connections
                (cells, added_connections, cell_id)
         else (let conn_key = sorted_pair (the src_node) (the dst_node)
               in if conn_key \<in> set added_connections
                  then edge_loop self_site node_ids device_to_node connections
                         (cells, added_connections, cell_id)
                  else (case (node_ids (the src_node), node_ids (the dst_node)) of
                          (Some s, Some t) \<Rightarrow>
                            edge_loop self_site node_ids device_to_node connections
                              (cells @ [Edge cell_id None (edge_style self_site src dst) s t],
                               conn_key # added_connections, cell_id + 1)
                        | _ \<Rightarrow> Inl KeyError)))"

text \<open>The element tree: the cells that the two loops put under \<open>root\<close>.\<close>

definition build_tree :: "string \<Rightarrow> (string \<times> node) list \<Rightarrow> console_conn list \<Rightarrow> py_error + cell list" where
  "build_tree self_site nodes connections =
     (case vertex_loop nodes ([], Map.empty, Map.empty, 2) of
        (cells, node_ids, device_to_node, cell_id) \<Rightarrow>
          edge_loop self_site node_ids device_to_node connections (cells, [], cell_id))"

text \<open>
  The diagram's name is \<open>f'{self.site.upper()} {self.fabric.upper()} Topology'\<close>.
  \<open>str.upper()\<close> maps no character to or from a control character, so the name is
  accepted by the parser exactly when the site and the fabric are.
\<close>

definition build_xml ::
  "string \<Rightarrow> string \<Rightarrow> (string \<times> node) list \<Rightarrow> console_conn list \<Rightarrow> py_error + cell list" where
  "build_xml self_site self_fabric nodes connections =
     (case build_tree self_site nodes connections of
        Inl e \<Rightarrow> Inl e
      | Inr cells \<Rightarrow> write_document [self_site, self_fabric] cells)"

definition console_generate_drawio_xml ::
  "string \<Rightarrow> string \<Rightarrow> topology_data \<Rightarrow> py_error + cell list" where
  "console_generate_drawio_xml self_site self_fabric topology_data =
     build_xml self_site self_fabric
       (layout_nodes self_site (td_type_groups topology_data) (td_inter_groups topology_data))
       (td_connections topology_data)"

section \<open>\<open>dsn_fabric_generator.py\<close>: the emitter\<close>

definition dsn_get_device_color :: "string \<Rightarrow> string \<Rightarrow> string" where
  "dsn_get_device_color device_name site =
     (if device_name = site @ ''-co-agg-r'' \<or> contains (site @ ''-co-agg-r['') device_name
      then ''#FFE6CC''
      else if contains ''co-agg'' device_name \<or> contains ''co-cor'' device_name
      then ''#D5E8D4''
      else ''#DAE8FC'')"

definition dsn_get_connection_color :: "string \<Rightarrow> string" where
  "dsn_get_connection_color conn_type =
     (case map_of [(''physical'', ''#0066CC''), (''bgp'', ''#009900''), (''switch'', ''#CC6600'')]
             conn_type of
        Some c \<Rightarrow> c
      | None \<Rightarrow> ''#666666'')"

text \<open>
  The device loop of \<open>generate_drawio_xml\<close>, over \<open>sorted(set(devices))\<close>. Its state:
  the cells written, \<open>device_cells\<close>, \<open>x_pos\<close>, \<open>y_pos\<close> and \<open>cell_id\<close>.
\<close>

fun dsn_device_loop ::
  "string \<Rightarrow> string list \<Rightarrow> cell list \<times> (string \<rightharpoonup> nat) \<times> nat \<times> nat \<times> nat
    \<Rightarrow> cell list \<times> (string \<rightharpoonup> nat) \<times> nat \<times> nat \<times> nat" where
  "dsn_device_loop site [] st = st"
| "dsn_device_loop site (device # devices) (cells, device_cells, x_pos, y_pos, cell_id) =
     (let cell = Vertex cell_id device
                   (''rounded=1;whiteSpace=wrap;html=1;fillColor=''
                    @ dsn_get_device_color device site @ '';strokeColor=#000000;'')
                   x_pos y_pos 160 60;
          x' = x_pos + 200
      in dsn_device_loop site devices
           (cells @ [cell], device_cells(device \<mapsto> cell_id),
            (if 800 < x' then 100 else x'), (if 800 < x' then y_pos + 120 else y_pos),
            cell_id + 1))"

text \<open>
  The connection loop. \<open>src_id\<close> and \<open>tgt_id\<close> are \<open>None\<close> or the decimal text of a
  cell number, which is never empty: \<open>if src_id and tgt_id\<close> asks whether both are
  there.
\<close>

fun dsn_connection_loop ::
  "(string \<rightharpoonup> nat) \<Rightarrow> conn list \<Rightarrow> cell list \<times> nat \<Rightarrow> cell list" where
  "dsn_connection_loop device_cells [] (cells, cell_id) = cells"
| "dsn_connection_loop device_cells (c # connections) (cells, cell_id) =
     (case (device_cells (source c), device_cells (target c)) of
        (Some src_id, Some tgt_id) \<Rightarrow>
          dsn_connection_loop device_cells connections
            (cells @ [Edge cell_id (Some (ctype c))
                        (''endArrow=none;html=1;strokeColor=''
                         @ dsn_get_connection_color (ctype c) @ '';strokeWidth=2;'')
                        src_id tgt_id],
             cell_id + 1)
      | _ \<Rightarrow> dsn_connection_loop device_cells connections (cells, cell_id))"

text \<open>
  The element tree of \<open>generate_drawio_xml\<close>: the cells that the two loops put under
  \<open>root\<close>.
\<close>

definition dsn_build_tree :: "string list \<Rightarrow> conn list \<Rightarrow> string \<Rightarrow> cell list" where
  "dsn_build_tree devices connections site =
     (case dsn_device_loop site (sort (remdups devices)) ([], Map.empty, 100, 100, 2) of
        (cells, device_cells, x_pos, y_pos, cell_id) \<Rightarrow>
          dsn_connection_loop device_cells connections (cells, cell_id))"

section \<open>Notions used to state the properties\<close>

text \<open>
  These are not functions of the repository: they name what the theorems speak about.
  \<open>first_by key seen xs\<close> keeps, in order, the first element of \<open>xs\<close> for every key that
  is not among \<open>seen\<close>: "the first-seen edge is kept, later ones discarded".
\<close>

fun first_by :: "('a \<Rightarrow> 'k) \<Rightarrow> 'k list \<Rightarrow> 'a list \<Rightarrow> 'a list" where
  "first_by key seen [] = []"
| "first_by key seen (x # xs) =
     (if key x \<in> set seen then first_by key seen xs
      else x # first_by key (key x # seen) xs)"

text \<open>A raw edge with both endpoints rewritten through the device-to-group mapping.\<close>

definition resolved :: "(string \<rightharpoonup> string) \<Rightarrow> conn \<Rightarrow> conn" where
  "resolved device_groups c =
     \<lparr>source = resolve device_groups (source c), target = resolve device_groups (target c),
      ctype = ctype c\<rparr>"

definition self_loop :: "conn \<Rightarrow> bool" where
  "self_loop e \<longleftrightarrow> source e = target e"

definition endpoints :: "conn \<Rightarrow> string set" where
  "endpoints e = {source e, target e}"

definition pair_key :: "conn \<Rightarrow> string \<times> string" where
  "pair_key e = sorted_pair (source e) (target e)"

definition typed_key :: "conn \<Rightarrow> (string \<times> string) \<times> string" where
  "typed_key e = (sorted_pair (source e) (target e), ctype e)"

text \<open>
  In a document: the text of the shape with a given identifier, and the identifiers
  of its shapes.
\<close>

definition shape_value :: "cell list \<Rightarrow> nat \<Rightarrow> string option" where
  "shape_value doc i = map_option cell_value (find (\<lambda>v. \<not> is_edge v \<and> cell_ident v = i) doc)"

definition shape_ids :: "cell list \<Rightarrow> nat set" where
  "shape_ids doc = cell_ident ` {v \<in> set doc. \<not> is_edge v}"

text \<open>The connector that the DSN emitter writes for a connection.\<close>

definition dsn_edge_cell :: "(string \<rightharpoonup> nat) \<Rightarrow> nat \<times> conn \<Rightarrow> cell" where
  "dsn_edge_cell device_cells ic =
     (case ic of (i, c) \<Rightarrow>
        Edge i (Some (ctype c))
          (''endArrow=none;html=1;strokeColor='' @ dsn_get_connection_color (ctype c)
           @ '';strokeWidth=2;'')
          (the (device_cells (source c))) (the (device_cells (target c))))"

text \<open>
  For the console emitter: the dictionaries \<open>node_ids\<close> and \<open>device_to_node\<close> as the
  first loop of \<open>_build_xml\<close> leaves them, the devices that belong to some node, the
  edges both of whose endpoints pass the test \<open>if not src_node or not dst_node\<close>, the
  key under which such an edge is remembered, and the connector written for it.
\<close>

definition node_ids_of :: "(string \<times> node) list \<Rightarrow> (string \<rightharpoonup> nat)" where
  "node_ids_of nodes = fst (snd (vertex_loop nodes ([], Map.empty, Map.empty, 2)))"

definition device_to_node_of :: "(string \<times> node) list \<Rightarrow> (string \<rightharpoonup> string)" where
  "device_to_node_of nodes = fst (snd (snd (vertex_loop nodes ([], Map.empty, Map.empty, 2))))"

definition placed_devices :: "(string \<times> node) list \<Rightarrow> string set" where
  "placed_devices nodes = (\<Union>n\<in>set nodes. set (node_devices (snd n)))"

definition resolved_conn :: "(string \<rightharpoonup> string) \<Rightarrow> console_conn \<Rightarrow> bool" where
  "resolved_conn device_to_node c \<longleftrightarrow>
     \<not> falsy (device_to_node (conn_source c)) \<and> \<not> falsy (device_to_node (conn_destination c))"

definition node_pair :: "(string \<rightharpoonup> string) \<Rightarrow> console_conn \<Rightarrow> string \<times> string" where
  "node_pair device_to_node c =
     sorted_pair (the (device_to_node (conn_source c))) (the (device_to_node (conn_destination c)))"

definition console_edge_cell ::
  "string \<Rightarrow> (string \<rightharpoonup> nat) \<Rightarrow> (string \<rightharpoonup> string) \<Rightarrow> nat \<times> console_conn \<Rightarrow> cell" where
  "console_edge_cell self_site node_ids device_to_node ic =
     (case ic of (i, c) \<Rightarrow>
        Edge i None (edge_style self_site (conn_source c) (conn_destination c))
          (the (node_ids (the (device_to_node (conn_source c)))))
          (the (node_ids (the (device_to_node (conn_destination c))))))"

text \<open>
  What the first loop keeps true: every cell written is a shape numbered below
  \<open>cell_id\<close>; every identifier in \<open>node_ids\<close> is that of a shape written; two keys
  never share an identifier; and every node that \<open>device_to_node\<close> names has an
  identifier.
\<close>

definition vertex_inv :: "cell list \<times> (string \<rightharpoonup> nat) \<times> (string \<rightharpoonup> string) \<times> nat \<Rightarrow> bool" where
  "vertex_inv st \<longleftrightarrow>
     (case st of (cells, node_ids, device_to_node, cell_id) \<Rightarrow>
        (\<forall>v\<in>set cells. \<not> is_edge v \<and> cell_ident v < cell_id)
      \<and> (\<forall>k i. node_ids k = Some i \<longrightarrow> i \<in> shape_ids cells)
      \<and> (\<forall>k k' i. node_ids k = Some i \<longrightarrow> node_ids k' = Some i \<longrightarrow> k = k')
      \<and> (\<forall>d k. device_to_node d = Some k \<longrightarrow> node_ids k \<noteq> None))"

text \<open>The identifier of the shape of the node that holds a device.\<close>

definition shape_of :: "(string \<times> node) list \<Rightarrow> string \<Rightarrow> nat" where
  "shape_of nodes device = the (node_ids_of nodes (the (device_to_node_of nodes device)))"

text \<open>
  The same, said without the emitter's dictionaries. A device belongs to the node that
  lists it among its devices, to the last of these in the order of the dictionary
  \<open>nodes\<close> if several list it; the shapes are numbered from 2 in the order of the
  dictionary.
\<close>

fun holder :: "(string \<times> node) list \<Rightarrow> string \<Rightarrow> string option" where
  "holder [] device = None"
| "holder ((node_key, node_data) # nodes) device =
     (case holder nodes device of
        Some k \<Rightarrow> Some k
      | None \<Rightarrow> if device \<in> set (node_devices node_data) then Some node_key else None)"

definition shape_id :: "(string \<times> node) list \<Rightarrow> string \<Rightarrow> nat" where
  "shape_id nodes node_key = 2 + length (takeWhile (\<lambda>kn. fst kn \<noteq> node_key) nodes)"

section \<open>\<open>generate_bjs11_corp_nap.py\<close>: \<open>parse_attr_content\<close>\<close>

text \<open>
  \<open>str.strip()\<close> and \<open>str.split()\<close> work on white space: of the code points below 256,
  the characters 9 to 13, 28 to 32, 133 and 160.
\<close>

definition is_space :: "char \<Rightarrow> bool" where
  "is_space c \<longleftrightarrow> (of_char c :: nat) \<in> {9, 10, 11, 12, 13, 28, 29, 30, 31, 32, 133, 160}"

definition strip :: "string \<Rightarrow> string" where
  "strip s = rev (dropWhile is_space (rev (dropWhile is_space s)))"

text \<open>\<open>s.split('\n')\<close>: the pieces between the newlines; \<open>piece\<close> is the piece being read, reversed.\<close>

fun split_nl :: "string \<Rightarrow> string \<Rightarrow> string list" where
  "split_nl piece [] = [rev piece]"
| "split_nl piece (c # s) =
     (if c = CHR 0x0A then rev piece # split_nl [] s else split_nl (c # piece) s)"

text \<open>\<open>s.split()\<close>: the maximal runs of characters that are not white space.\<close>

fun split_ws :: "string \<Rightarrow> string \<Rightarrow> string list" where
  "split_ws tok [] = (if tok = [] then [] else [rev tok])"
| "split_ws tok (c # s) =
     (if is_space c then (if tok = [] then split_ws [] s else rev tok # split_ws [] s)
      else split_ws (c # tok) s)"

text \<open>
  The first loop: \<open>current_device\<close> and \<open>devices\<close> after all lines. \<open>line.split()[1]\<close>
  raises \<open>IndexError\<close> on a line that has \<open>HOSTNAME\<close> and nothing after it.
\<close>

fun hostname_loop ::
  "string list \<Rightarrow> string option \<times> string set \<Rightarrow> py_error + (string option \<times> string set)" where
  "hostname_loop [] st = Inr st"
| "hostname_loop (l # ls) (current_device, devices) =
     (let line = strip l
      in if prefix ''HOSTNAME'' line
         then (case split_ws [] line of
                 a # b # rest \<Rightarrow> hostname_loop ls (Some b, insert b devices)
               | _ \<Rightarrow> Inl IndexError)
         else hostname_loop ls (current_device, devices))"

text \<open>
  The second and the third loop are the same text with \<open>CUSTOMERLAG\<close>, \<open>'customer'\<close> and
  with \<open>RINGLAG\<close>, \<open>'ring'\<close>. \<open>parts[-1]\<close> is there: the line starts with the keyword.
\<close>

fun lag_loop ::
  "string \<Rightarrow> string \<Rightarrow> string option \<Rightarrow> string list \<Rightarrow> string set \<times> conn list
    \<Rightarrow> string set \<times> conn list" where
  "lag_loop keyword conn_type current_device [] st = st"
| "lag_loop keyword conn_type current_device (l # ls) (devices, connections) =
     (let line = strip l
      in if prefix keyword line \<and> contains ''DESC'' line
         then (let lag_device = last (split_ws [] line)
               in lag_loop keyword conn_type current_device ls
                    (insert lag_device devices,
                     if falsy current_device then connections
                     else connections
                          @ [\<lparr>source = the current_device, target = lag_device,
                               ctype = conn_type\<rparr>]))
         else lag_loop keyword conn_type current_device ls (devices, connections))"

text \<open>The fourth loop, with the denylist of neighbour advertisements.\<close>

definition excluded_neighbor :: "string \<Rightarrow> bool" where
  "excluded_neighbor line \<longleftrightarrow>
     prefix ''IBGPNEIGH'' line \<or> prefix ''EBGPNEIGH'' line \<or> prefix ''RRCLIENTNEIGH'' line"

fun peer_loop ::
  "string option \<Rightarrow> string list \<Rightarrow> string set \<times> conn list \<Rightarrow> string set \<times> conn list" where
  "peer_loop current_device [] st = st"
| "peer_loop current_device (l # ls) (devices, connections) =
     (let line = strip l
      in if contains ''PEER'' line \<and> \<not> excluded_neighbor line
         then (let parts = split_ws [] line
               in if 3 \<le> length parts
                  then (let peer_device = last parts
                        in peer_loop current_device ls
                             (insert peer_device devices,
                              if falsy current_device then connections
                              else connections
                                   @ [\<lparr>source = the current_device, target = peer_device,
                                        ctype = (if contains ''FWPEER'' line then ''nap_firewall''
                                                 else ''nap_inter_region'')\<rparr>]))
                  else peer_loop current_device ls (devices, connections))
         else peer_loop current_device ls (devices, connections))"

text \<open>
  The four loops over the lines of the content. The result \<open>list(devices)\<close> lists a set
  in no fixed order; the model returns the set.
\<close>

definition parse_attr_lines :: "string list \<Rightarrow> py_error + (string set \<times> conn list)" where
  "parse_attr_lines ls =
     (case hostname_loop ls (None, {}) of
        Inl e \<Rightarrow> Inl e
      | Inr (current_device, devices) \<Rightarrow>
          Inr (peer_loop current_device ls
                (lag_loop ''RINGLAG'' ''ring'' current_device ls
                  (lag_loop ''CUSTOMERLAG'' ''customer'' current_device ls (devices, [])))))"

definition parse_attr_content :: "string \<Rightarrow> py_error + (string set \<times> conn list)" where
  "parse_attr_content content = parse_attr_lines (split_nl [] content)"

text \<open>
  To state the properties: the hostname-declaration lines of an input, stripped, in
  order, and the device that the last of them names.
\<close>

definition hostname_lines :: "string list \<Rightarrow> string list" where
  "hostname_lines ls = filter (prefix ''HOSTNAME'') (map strip ls)"

definition last_hostname :: "string list \<Rightarrow> string option" where
  "last_hostname ls =
     (case rev (hostname_lines ls) of
        [] \<Rightarrow> None
      | l # before \<Rightarrow> (case split_ws [] l of a # b # rest \<Rightarrow> Some b | _ \<Rightarrow> None))"

section \<open>\<open>dsn_fabric_generator.py\<close>: the written document\<close>

text \<open>
  The end of \<open>generate_drawio_xml\<close>. As in the console generator the tree is written,
  parsed (\<open>ExpatError\<close> on a character that XML does not allow) and printed by
  \<open>toprettyxml\<close>; then the lines of the text that hold white space only are taken
  out. A line feed of an attribute value is written as it is, so a line of the text
  that lies wholly inside an attribute value goes with the others when it is blank:
  of the pieces of the value between its line feeds, the blank ones other than the
  first and the last.
\<close>

definition drop_blank_lines :: "string \<Rightarrow> string" where
  "drop_blank_lines v =
     (case split_nl [] v of
        [] \<Rightarrow> []
      | [p] \<Rightarrow> p
      | p # ps \<Rightarrow>
          join [CHR 0x0A] (p # filter (\<lambda>l. strip l \<noteq> []) (butlast ps) @ [last ps]))"

definition dsn_attribute_text :: "string \<Rightarrow> string" where
  "dsn_attribute_text v = attribute_text (drop_blank_lines v)"

fun dsn_written_cell :: "cell \<Rightarrow> cell" where
  "dsn_written_cell (Vertex i v s x y w h) =
     Vertex i (dsn_attribute_text v) (dsn_attribute_text s) x y w h"
| "dsn_written_cell (Edge i v s a b) =
     Edge i (map_option dsn_attribute_text v) (dsn_attribute_text s) a b"

text \<open>
  The diagram's name is \<open>f"{site.upper()} DSN Topology"\<close>: the parser accepts it
  exactly when it accepts the site.
\<close>

definition dsn_generate_drawio_xml ::
  "string list \<Rightarrow> conn list \<Rightarrow> string \<Rightarrow> py_error + cell list" where
  "dsn_generate_drawio_xml devices connections site =
     (let cells = dsn_build_tree devices connections site
      in if list_all (list_all xml_char) (site # concat (map cell_strings cells))
         then Inr (map dsn_written_cell cells)
         else Inl ExpatError)"

section \<open>\<open>umn_prod_topology_generator.py\<close>\<close>

subsection \<open>JSON values\<close>

text \<open>
  What \<open>json.loads\<close> returns: \<open>None\<close>, a \<open>bool\<close>, an \<open>int\<close>, a \<open>float\<close> (a finite one as
  mantissa and binary exponent; the parser also reads \<open>NaN\<close> and the two infinities), a
  \<open>str\<close>, a \<open>list\<close> or a \<open>dict\<close>. A \<open>dict\<close> is the list of its items in their order; its
  keys differ.
\<close>

datatype py_float = Finite int int | NaN | Infinity bool

datatype json =
  JNull | JBool bool | JInt int | JFloat py_float | JString string
| JArray "json list" | JObject "(string \<times> json) list"

text \<open>The truth value of \<open>if v:\<close>.\<close>

fun truthy :: "json \<Rightarrow> bool" where
  "truthy JNull = False"
| "truthy (JBool b) = b"
| "truthy (JInt i) = (i \<noteq> 0)"
| "truthy (JFloat f) = (case f of Finite m e \<Rightarrow> m \<noteq> 0 | _ \<Rightarrow> True)"
| "truthy (JString s) = (s \<noteq> [])"
| "truthy (JArray xs) = (xs \<noteq> [])"
| "truthy (JObject kvs) = (kvs \<noteq> [])"

text \<open>
  \<open>v.get(key, dflt)\<close>, \<open>v.keys()\<close> and \<open>v.items()\<close>: only a \<open>dict\<close> has these methods,
  on any other value the call raises \<open>AttributeError\<close>.
\<close>

definition py_get :: "json \<Rightarrow> string \<Rightarrow> json \<Rightarrow> py_error + json" where
  "py_get v key dflt =
     (case v of
        JObject kvs \<Rightarrow> Inr (case map_of kvs key of Some x \<Rightarrow> x | None \<Rightarrow> dflt)
      | _ \<Rightarrow> Inl AttributeError)"

definition py_items :: "json \<Rightarrow> py_error + (string \<times> json) list" where
  "py_items v = (case v of JObject kvs \<Rightarrow> Inr kvs | _ \<Rightarrow> Inl AttributeError)"

definition py_keys :: "json \<Rightarrow> py_error + string list" where
  "py_keys v = (case v of JObject kvs \<Rightarrow> Inr (map fst kvs) | _ \<Rightarrow> Inl AttributeError)"

text \<open>A \<open>list\<close> or a \<open>dict\<close> cannot be added to a \<open>set\<close> (\<open>TypeError\<close>: unhashable).\<close>

fun hashable :: "json \<Rightarrow> bool" where
  "hashable (JArray xs) = False"
| "hashable (JObject kvs) = False"
| "hashable v = True"

subsection \<open>\<open>parse_brick_content\<close>\<close>

text \<open>\<open>s.split(sep)\<close> for a separator of one character.\<close>

fun split_char :: "char \<Rightarrow> string \<Rightarrow> string \<Rightarrow> string list" where
  "split_char sep piece [] = [rev piece]"
| "split_char sep piece (c # s) =
     (if c = sep then rev piece # split_char sep [] s else split_char sep (c # piece) s)"

text \<open>
  \<open>site.split('-')[0] + '-' + site.split('-')[1]\<close>: \<open>IndexError\<close> when the site has no
  hyphen.
\<close>

definition site_az_of :: "string \<Rightarrow> py_error + string" where
  "site_az_of site =
     (case split_char CHR ''-'' [] site of
        a # b # rest \<Rightarrow> Inr (a @ ''-'' @ b)
      | _ \<Rightarrow> Inl IndexError)"

text \<open>
  An entry of \<open>connections\<close>. The source is a key of a \<open>dict\<close>, a string; the target is
  the value of \<open>remote_device\<close>, whatever it is.
\<close>

record brick_conn =
  bc_source :: string
  bc_target :: json
  bc_type :: string

text \<open>
  \<open>source_device.startswith(site_az) or target_device.startswith(site_az)\<close>: the second
  call is made only when the first is false, and only a \<open>str\<close> has the method.
\<close>

definition in_root_az :: "string \<Rightarrow> string \<Rightarrow> json \<Rightarrow> py_error + bool" where
  "in_root_az site_az source_device target_device =
     (if prefix site_az source_device then Inr True
      else (case target_device of
              JString t \<Rightarrow> Inr (prefix site_az t)
            | _ \<Rightarrow> Inl AttributeError))"

text \<open>
  The inner loop, over the interfaces of one device, and the outer loop, over the
  devices. The state is \<open>connected_devices\<close> and \<open>connections\<close>.
\<close>

fun interface_loop ::
  "string \<Rightarrow> string \<Rightarrow> (string \<times> json) list \<Rightarrow> json set \<times> brick_conn list
    \<Rightarrow> py_error + (json set \<times> brick_conn list)" where
  "interface_loop site_az source_device [] st = Inr st"
| "interface_loop site_az source_device ((interface_name, interface_data) # interfaces)
       (connected_devices, connections) =
     (case py_get interface_data ''remote_device'' JNull of
        Inl e \<Rightarrow> Inl e
      | Inr target_device \<Rightarrow>
          if \<not> truthy target_device
          then interface_loop site_az source_device interfaces (connected_devices, connections)
          else (case in_root_az site_az source_device target_device of
                  Inl e \<Rightarrow> Inl e
                | Inr False \<Rightarrow>
                    interface_loop site_az source_device interfaces (connected_devices, connections)
                | Inr True \<Rightarrow>
                    if \<not> hashable target_device then Inl TypeError
                    else interface_loop site_az source_device interfaces
                           (connected_devices \<union> {JString source_device, target_device},
                            connections @ [\<lparr>bc_source = source_device, bc_target = target_device,
                                            bc_type = ''physical''\<rparr>])))"

fun node_loop ::
  "string \<Rightarrow> (string \<times> json) list \<Rightarrow> json set \<times> brick_conn list
    \<Rightarrow> py_error + (json set \<times> brick_conn list)" where
  "node_loop site_az [] st = Inr st"
| "node_loop site_az ((source_device, interfaces) # nodes) st =
     (case py_items interfaces of
        Inl e \<Rightarrow> Inl e
      | Inr items \<Rightarrow>
          (case interface_loop site_az source_device items st of
             Inl e \<Rightarrow> Inl e
           | Inr st' \<Rightarrow> node_loop site_az nodes st'))"

text \<open>
  \<open>json.loads\<close> is the library's parser; the argument \<open>content\<close> of the model is its
  outcome on the text: the value read, or \<open>None\<close> when it raises \<open>JSONDecodeError\<close>, after
  which the function ends the run with \<open>sys.exit(1)\<close>. The keys of \<open>DEVICE_DETAILS\<close> are
  strings, so \<open>connected_devices & all_devices\<close> keeps the strings of
  \<open>connected_devices\<close> that are keys. \<open>list(devices)\<close> lists a set in no fixed order; the
  model returns the set.
\<close>

definition parse_brick_content ::
  "json option \<Rightarrow> string \<Rightarrow> py_error + (string set \<times> brick_conn list)" where
  "parse_brick_content content site =
     (case content of
        None \<Rightarrow> Inl SystemExit
      | Some brick_data \<Rightarrow>
     (case py_get brick_data ''DEVICE_DETAILS'' (JObject []) of
        Inl e \<Rightarrow> Inl e
      | Inr device_details \<Rightarrow>
     (case py_keys device_details of
        Inl e \<Rightarrow> Inl e
      | Inr all_devices \<Rightarrow>
     (case site_az_of site of
        Inl e \<Rightarrow> Inl e
      | Inr site_az \<Rightarrow>
     (case py_get brick_data ''NODES_AND_INTERFACES'' (JObject []) of
        Inl e \<Rightarrow> Inl e
      | Inr nodes_and_interfaces \<Rightarrow>
     (case py_items nodes_and_interfaces of
        Inl e \<Rightarrow> Inl e
      | Inr nodes \<Rightarrow>
     (case node_loop site_az nodes ({}, []) of
        Inl e \<Rightarrow> Inl e
      | Inr (connected_devices, connections) \<Rightarrow>
          Inr (set (filter (\<lambda>d. JString d \<in> connected_devices) all_devices),
               connections))))))))"

subsection \<open>Brick data of the expected shape\<close>

text \<open>
  To state the properties. A brick of the expected shape has an object
  \<open>DEVICE_DETAILS\<close> and a table \<open>NODES_AND_INTERFACES\<close> that gives, per device and per
  interface, an object in which \<open>remote_device\<close> and \<open>interface_type\<close> are strings or
  absent; \<open>brick_json\<close> is the JSON value of such a brick.
\<close>

record brick_data =
  DEVICE_DETAILS :: "(string \<times> json) list"
  NODES_AND_INTERFACES :: brick_nodes

definition details_json :: "iface_details \<Rightarrow> json" where
  "details_json details =
     JObject ((case remote_device details of None \<Rightarrow> [] | Some r \<Rightarrow> [(''remote_device'', JString r)])
              @ (case interface_type details of
                   None \<Rightarrow> []
                 | Some t \<Rightarrow> [(''interface_type'', JString t)]))"

definition nodes_json :: "brick_nodes \<Rightarrow> (string \<times> json) list" where
  "nodes_json nodes =
     map (\<lambda>(device, interfaces).
            (device, JObject (map (\<lambda>(iface, details). (iface, details_json details)) interfaces)))
         nodes"

definition brick_json :: "brick_data \<Rightarrow> json" where
  "brick_json brick =
     JObject [(''DEVICE_DETAILS'', JObject (DEVICE_DETAILS brick)),
              (''NODES_AND_INTERFACES'', JObject (nodes_json (NODES_AND_INTERFACES brick)))]"

text \<open>
  The edges that the table of such a brick declares, one per interface with a
  non-empty \<open>remote_device\<close>, in the order of the table; and an edge as an entry of
  \<open>connections\<close>.
\<close>

definition interface_edges :: "string \<Rightarrow> (string \<times> iface_details) list \<Rightarrow> conn list" where
  "interface_edges source_device interfaces =
     concat (map (\<lambda>(interface_name, interface_data).
        (case remote_device interface_data of
           None \<Rightarrow> []
         | Some target_device \<Rightarrow>
             if target_device \<noteq> []
             then [\<lparr>source = source_device, target = target_device, ctype = ''physical''\<rparr>]
             else []))
        interfaces)"

definition declared_connections :: "brick_nodes \<Rightarrow> conn list" where
  "declared_connections nodes =
     concat (map (\<lambda>(source_device, interfaces). interface_edges source_device interfaces) nodes)"

definition conn_json :: "conn \<Rightarrow> brick_conn" where
  "conn_json e = \<lparr>bc_source = source e, bc_target = JString (target e), bc_type = ctype e\<rparr>"

text \<open>
  A device is local to a site when the site that its name gives (the leading letters,
  digits, hyphen and digits, as the classifier reads them) is that site.
\<close>

definition local_to :: "string \<Rightarrow> string \<Rightarrow> bool" where
  "local_to site device \<longleftrightarrow> site \<noteq> [] \<and> site_of_name device = site"

section \<open>Facts about the character classes\<close>

lemma digit_not_lower: "is_digit c \<Longrightarrow> \<not> is_lower c"
  by (auto simp: is_digit_def is_lower_def less_eq_char_def)

lemma hyphen_not_digit [simp]: "\<not> is_digit CHR ''-''"
  by (simp add: is_digit_def)

lemma hyphen_not_lower [simp]: "\<not> is_lower CHR ''-''"
  by (simp add: is_lower_def)

lemma takeWhile_run:
  assumes "list_all P a" and "rest = [] \<or> \<not> P (hd rest)"
  shows "takeWhile P (a @ rest) = a" and "dropWhile P (a @ rest) = rest"
proof -
  from assms(1) have all: "\<And>x. x \<in> set a \<Longrightarrow> P x"
    by (simp add: list_all_iff)
  from assms(2) have t: "takeWhile P rest = []" and d: "dropWhile P rest = rest"
    by (cases rest; auto)+
  show "takeWhile P (a @ rest) = a"
    using all t by (simp add: takeWhile_append2)
  show "dropWhile P (a @ rest) = rest"
    using all d by (simp add: dropWhile_append2)
qed

section \<open>The matcher implements the pattern\<close>

lemma re_match_site_complete:
  assumes "site_naming_pattern s"
  shows "re_match_site s \<noteq> None"
proof -
  from assms obtain a d k r where s: "s = a @ d @ ''-'' @ k @ r"
    and a: "a \<noteq> []" "list_all is_lower a"
    and d: "d \<noteq> []" "list_all is_digit d"
    and k: "k \<noteq> []" "list_all is_digit k"
    unfolding site_naming_pattern_def by blast
  define t where "t = CHR ''-'' # k @ r"
  from d have hd_d: "\<not> is_lower (hd (d @ t))"
    by (cases d) (auto dest: digit_not_lower)
  have s': "s = a @ d @ t"
    by (simp add: s t_def)
  have l1: "takeWhile is_lower s = a" and l2: "dropWhile is_lower s = d @ t"
    unfolding s' using takeWhile_run [OF a(2), of "d @ t"] hd_d by simp_all
  have d1: "takeWhile is_digit (d @ t) = d" and d2: "dropWhile is_digit (d @ t) = t"
    using takeWhile_run [OF d(2), of t] by (simp_all add: t_def)
  from k have k1: "takeWhile is_digit (k @ r) \<noteq> []"
    by (cases k) auto
  show ?thesis
    using a(1) d(1) k1 by (simp add: re_match_site_def Let_def l1 l2 d1 d2) (simp add: t_def)
qed

lemma re_match_site_sound:
  assumes "re_match_site s \<noteq> None"
  shows "site_naming_pattern s"
proof -
  define a where "a = takeWhile is_lower s"
  define r1 where "r1 = dropWhile is_lower s"
  define d where "d = takeWhile is_digit r1"
  define r2 where "r2 = dropWhile is_digit r1"
  from assms have a: "a \<noteq> []" and d: "d \<noteq> []"
    by (auto simp: re_match_site_def Let_def a_def d_def r1_def split: if_splits)
  from assms a d obtain r3 where r2: "r2 = CHR ''-'' # r3" and k: "takeWhile is_digit r3 \<noteq> []"
    by (auto simp: re_match_site_def Let_def a_def d_def r1_def r2_def
             split: if_splits list.splits)
  have "s = a @ r1" by (simp add: a_def r1_def)
  moreover have "r1 = d @ r2" by (simp add: d_def r2_def)
  moreover have "r3 = takeWhile is_digit r3 @ dropWhile is_digit r3" by simp
  ultimately have "s = a @ d @ ''-'' @ takeWhile is_digit r3 @ dropWhile is_digit r3"
    using r2 by simp
  moreover have "list_all is_lower a" "list_all is_digit d"
    "list_all is_digit (takeWhile is_digit r3)"
    by (auto simp: a_def d_def list_all_iff dest: set_takeWhileD)
  ultimately show ?thesis
    unfolding site_naming_pattern_def using a d k by blast
qed

lemma re_match_site_iff: "re_match_site s \<noteq> None \<longleftrightarrow> site_naming_pattern s"
  using re_match_site_complete re_match_site_sound by blast

section \<open>First-seen selection\<close>

lemma first_by_seen_cong: "set seen = set seen' \<Longrightarrow> first_by key seen xs = first_by key seen' xs"
proof (induction xs arbitrary: seen seen')
  case Nil
  show ?case by simp
next
  case (Cons x xs)
  have "set (key x # seen) = set (key x # seen')"
    using Cons.prems by simp
  then have "first_by key (key x # seen) xs = first_by key (key x # seen') xs"
    by (rule Cons.IH)
  moreover have "first_by key seen xs = first_by key seen' xs"
    using Cons.prems by (rule Cons.IH)
  ultimately show ?case
    using Cons.prems by simp
qed

lemma first_by_subset: "set (first_by key seen xs) \<subseteq> set xs"
  by (induction xs arbitrary: seen) auto

lemma first_by_keys: "key ` set (first_by key seen xs) = key ` set xs - set seen"
  by (induction xs arbitrary: seen) auto

lemma first_by_distinct: "distinct (map key (first_by key seen xs))"
proof (induction xs arbitrary: seen)
  case Nil
  show ?case by simp
next
  case (Cons x xs)
  have "key x \<notin> key ` set (first_by key (key x # seen) xs)"
    by (simp add: first_by_keys)
  with Cons show ?case by simp
qed

lemma first_by_find:
  "find (\<lambda>x. key x = k) (first_by key seen xs) =
     (if k \<in> set seen then None else find (\<lambda>x. key x = k) xs)"
proof (induction xs arbitrary: seen)
  case Nil
  show ?case by simp
next
  case (Cons x xs)
  show ?case
  proof (cases "key x \<in> set seen")
    case True
    then show ?thesis using Cons [of seen] by auto
  next
    case False
    then show ?thesis using Cons [of "key x # seen"] by auto
  qed
qed

lemma distinct_filter_single:
  "distinct (map f xs) \<Longrightarrow> find (\<lambda>x. f x = k) xs = Some e \<Longrightarrow> filter (\<lambda>x. f x = k) xs = [e]"
proof (induction xs)
  case Nil
  then show ?case by simp
next
  case (Cons x xs)
  show ?case
  proof (cases "f x = k")
    case True
    with Cons.prems have "e = x" and "k \<notin> f ` set xs"
      by auto
    then have "filter (\<lambda>x. f x = k) xs = []"
      by (auto simp: filter_empty_conv)
    then show ?thesis using True \<open>e = x\<close> by simp
  next
    case False
    with Cons show ?thesis by simp
  qed
qed

lemma first_by_single:
  assumes "find (\<lambda>x. key x = k) xs = Some e"
  shows "filter (\<lambda>x. key x = k) (first_by key [] xs) = [e]"
proof -
  have "find (\<lambda>x. key x = k) (first_by key [] xs) = Some e"
    using assms by (simp add: first_by_find)
  then show ?thesis
    by (rule distinct_filter_single [OF first_by_distinct])
qed

section \<open>The canonicalizers keep the first edge of every key\<close>

lemma sorted_pair_eq_iff: "sorted_pair a b = sorted_pair c d \<longleftrightarrow> {a, b} = {c, d}"
  by (auto simp: sorted_pair_def doubleton_eq_iff)

lemma pair_key_eq_iff: "pair_key e = pair_key e' \<longleftrightarrow> endpoints e = endpoints e'"
  by (simp add: pair_key_def endpoints_def sorted_pair_eq_iff)

lemma typed_key_eq_iff:
  "typed_key e = typed_key e' \<longleftrightarrow> endpoints e = endpoints e' \<and> ctype e = ctype e'"
  by (simp add: typed_key_def endpoints_def sorted_pair_eq_iff)

lemma endpoints_self_loop: "endpoints e = endpoints e' \<Longrightarrow> self_loop e = self_loop e'"
  unfolding endpoints_def self_loop_def by (metis doubleton_eq_iff)

lemma dedup_typed_loop_first_by:
  "dedup_typed_loop device_groups connections acc =
     acc @ map (\<lambda>e. (typed_key e, e))
             (first_by typed_key (map fst acc)
                (filter (\<lambda>e. \<not> self_loop e) (map (resolved device_groups) connections)))"
proof (induction connections arbitrary: acc)
  case Nil
  show ?case by simp
next
  case (Cons c connections)
  let ?e = "resolved device_groups c"
  have e: "?e = \<lparr>source = resolve device_groups (source c),
                  target = resolve device_groups (target c), ctype = ctype c\<rparr>"
    by (simp add: resolved_def)
  have k: "typed_key ?e =
      (sorted_pair (resolve device_groups (source c)) (resolve device_groups (target c)), ctype c)"
    by (simp add: typed_key_def resolved_def)
  have s: "self_loop ?e \<longleftrightarrow> resolve device_groups (source c) = resolve device_groups (target c)"
    by (simp add: self_loop_def resolved_def)
  show ?case
  proof (cases "self_loop ?e")
    case True
    then show ?thesis using Cons [of acc] s by simp
  next
    case False
    show ?thesis
    proof (cases "typed_key ?e \<in> set (map fst acc)")
      case True
      then show ?thesis using Cons [of acc] False s k by (simp add: Let_def)
    next
      case False': False
      have "first_by typed_key (map fst (acc @ [(typed_key ?e, ?e)])) xs =
            first_by typed_key (typed_key ?e # map fst acc) xs" for xs
        by (rule first_by_seen_cong) auto
      then show ?thesis
        using Cons [of "acc @ [(typed_key ?e, ?e)]"] False False' s k e
        by (simp add: Let_def)
    qed
  qed
qed

lemma dedup_pair_loop_first_by:
  "dedup_pair_loop device_groups connections acc =
     acc @ map (\<lambda>e. (pair_key e, e))
             (first_by pair_key (map fst acc)
                (filter (\<lambda>e. \<not> self_loop e) (map (resolved device_groups) connections)))"
proof (induction connections arbitrary: acc)
  case Nil
  show ?case by simp
next
  case (Cons c connections)
  let ?e = "resolved device_groups c"
  have e: "?e = \<lparr>source = resolve device_groups (source c),
                  target = resolve device_groups (target c), ctype = ctype c\<rparr>"
    by (simp add: resolved_def)
  have k: "pair_key ?e =
      sorted_pair (resolve device_groups (source c)) (resolve device_groups (target c))"
    by (simp add: pair_key_def resolved_def)
  have s: "self_loop ?e \<longleftrightarrow> resolve device_groups (source c) = resolve device_groups (target c)"
    by (simp add: self_loop_def resolved_def)
  show ?case
  proof (cases "self_loop ?e")
    case True
    then show ?thesis using Cons [of acc] s by simp
  next
    case False
    show ?thesis
    proof (cases "pair_key ?e \<in> set (map fst acc)")
      case True
      then show ?thesis using Cons [of acc] False s k by (simp add: Let_def)
    next
      case False': False
      have "first_by pair_key (map fst (acc @ [(pair_key ?e, ?e)])) xs =
            first_by pair_key (pair_key ?e # map fst acc) xs" for xs
        by (rule first_by_seen_cong) auto
      then show ?thesis
        using Cons [of "acc @ [(pair_key ?e, ?e)]"] False False' s k e
        by (simp add: Let_def)
    qed
  qed
qed

lemma typed_dedup_first_by:
  "map snd (dedup_typed_loop device_groups connections []) =
     first_by typed_key []
       (filter (\<lambda>e. \<not> self_loop e) (map (resolved device_groups) connections))"
  by (simp add: dedup_typed_loop_first_by comp_def)

lemma pair_dedup_first_by:
  "map snd (dedup_pair_loop device_groups connections []) =
     first_by pair_key []
       (filter (\<lambda>e. \<not> self_loop e) (map (resolved device_groups) connections))"
  by (simp add: dedup_pair_loop_first_by comp_def)

lemma dedup_no_self_loop:
  "e \<in> set (dsn_deduplicate_connections connections device_groups) \<Longrightarrow> source e \<noteq> target e"
  "e \<in> set (corp_nap_deduplicate_connections connections device_groups) \<Longrightarrow> source e \<noteq> target e"
  "e \<in> set (umn_prod_deduplicate_connections connections device_groups) \<Longrightarrow> source e \<noteq> target e"
proof -
  have "\<not> self_loop x" if "x \<in> set (first_by key [] (filter (\<lambda>e. \<not> self_loop e) xs))"
    for x :: conn and key :: "conn \<Rightarrow> 'k" and xs
    using that first_by_subset [of key "[]" "filter (\<lambda>e. \<not> self_loop e) xs"] by auto
  then show
    "e \<in> set (dsn_deduplicate_connections connections device_groups) \<Longrightarrow> source e \<noteq> target e"
    "e \<in> set (corp_nap_deduplicate_connections connections device_groups) \<Longrightarrow> source e \<noteq> target e"
    "e \<in> set (umn_prod_deduplicate_connections connections device_groups) \<Longrightarrow> source e \<noteq> target e"
    unfolding dsn_deduplicate_connections_def corp_nap_deduplicate_connections_def
      umn_prod_deduplicate_connections_def typed_dedup_first_by pair_dedup_first_by
      self_loop_def by blast+
qed

section \<open>One canonical edge per key\<close>

lemma find_filter_implied:
  assumes "\<And>x. x \<in> set xs \<Longrightarrow> P x \<Longrightarrow> Q x"
  shows "find P (filter Q xs) = find P xs"
  using assms by (induction xs) auto

lemma find_member_Some: "x \<in> set xs \<Longrightarrow> P x \<Longrightarrow> \<exists>y. find P xs = Some y"
  by (cases "find P xs") (auto simp: find_None_iff)

lemma first_edge_of_key:
  fixes key :: "conn \<Rightarrow> 'k"
  assumes key: "\<And>e e'. key e = key e' \<Longrightarrow> endpoints e = endpoints e'"
    and c: "c \<in> set connections" and ns: "\<not> self_loop (resolved device_groups c)"
  shows "\<exists>e. find (\<lambda>e'. key e' = key (resolved device_groups c))
                 (map (resolved device_groups) connections) = Some e
             \<and> filter (\<lambda>e'. key e' = key (resolved device_groups c))
                 (first_by key []
                    (filter (\<lambda>e. \<not> self_loop e) (map (resolved device_groups) connections)))
               = [e]"
proof -
  let ?rc = "resolved device_groups c"
  let ?L = "map (resolved device_groups) connections"
  let ?P = "\<lambda>e'. key e' = key ?rc"
  from c have "?rc \<in> set ?L" by simp
  then obtain e where e: "find ?P ?L = Some e"
    using find_member_Some [of ?rc ?L ?P] by auto
  have "find ?P (filter (\<lambda>e. \<not> self_loop e) ?L) = find ?P ?L"
  proof (rule find_filter_implied)
    fix x assume "key x = key ?rc"
    then have "endpoints x = endpoints ?rc" by (rule key)
    then show "\<not> self_loop x" using ns endpoints_self_loop by blast
  qed
  with e have "filter ?P (first_by key [] (filter (\<lambda>e. \<not> self_loop e) ?L)) = [e]"
    by (simp add: first_by_single)
  with e show ?thesis by blast
qed

section \<open>The DSN emitter\<close>

lemma find_append_cases:
  "find P (xs @ ys) = (case find P xs of None \<Rightarrow> find P ys | Some x \<Rightarrow> Some x)"
  by (induction xs) auto

lemma shape_value_append_found:
  "shape_value cells i = Some d \<Longrightarrow> shape_value (cells @ rest) i = Some d"
  by (auto simp: shape_value_def find_append_cases split: option.splits)

lemma shape_value_fresh:
  assumes "\<forall>v\<in>set cells. cell_ident v < cid"
  shows "shape_value (cells @ [Vertex cid d s x y w h]) cid = Some d"
proof -
  have "find (\<lambda>v. \<not> is_edge v \<and> cell_ident v = cid) cells = None"
    using assms by (auto simp: find_None_iff)
  then show ?thesis
    by (simp add: shape_value_def find_append_cases)
qed

lemma dsn_device_loop_inv:
  assumes "\<forall>v\<in>set cells. \<not> is_edge v \<and> cell_ident v < cid"
    and "\<forall>d i. dc d = Some i \<longrightarrow> shape_value cells i = Some d"
    and "dsn_device_loop site ds (cells, dc, x, y, cid) = (cells', dc', x', y', cid')"
  shows "(\<forall>v\<in>set cells'. \<not> is_edge v \<and> cell_ident v < cid')
       \<and> (\<forall>d i. dc' d = Some i \<longrightarrow> shape_value cells' i = Some d)
       \<and> dom dc' = dom dc \<union> set ds"
  using assms
proof (induction ds arbitrary: cells dc x y cid)
  case Nil
  then show ?case by simp
next
  case (Cons dev ds)
  let ?v = "Vertex cid dev
              (''rounded=1;whiteSpace=wrap;html=1;fillColor=''
               @ dsn_get_device_color dev site @ '';strokeColor=#000000;'') x y 160 60"
  let ?cells = "cells @ [?v]"
  let ?dc = "dc(dev \<mapsto> cid)"
  have a: "\<forall>v\<in>set ?cells. \<not> is_edge v \<and> cell_ident v < cid + 1"
    using Cons.prems(1) by auto
  have fresh: "shape_value ?cells cid = Some dev"
    using Cons.prems(1) by (intro shape_value_fresh) auto
  have b: "\<forall>d i. ?dc d = Some i \<longrightarrow> shape_value ?cells i = Some d"
    using Cons.prems(2) fresh by (auto intro: shape_value_append_found)
  have c: "dsn_device_loop site ds
             (?cells, ?dc, (if 800 < x + 200 then 100 else x + 200),
              (if 800 < x + 200 then y + 120 else y), cid + 1) = (cells', dc', x', y', cid')"
    using Cons.prems(3) by (simp add: Let_def)
  from Cons.IH [OF a b c] show ?case by auto
qed

lemma dsn_connection_loop_eq:
  "dsn_connection_loop dc connections (cells, cid) =
     cells @ map (dsn_edge_cell dc)
               (enumerate cid
                  (filter (\<lambda>c. dc (source c) \<noteq> None \<and> dc (target c) \<noteq> None) connections))"
proof (induction connections arbitrary: cells cid)
  case Nil
  show ?case by simp
next
  case (Cons c connections)
  show ?case
  proof (cases "dc (source c) \<noteq> None \<and> dc (target c) \<noteq> None")
    case True
    then show ?thesis
      using Cons [of "cells @ [dsn_edge_cell dc (cid, c)]" "cid + 1"]
      by (auto simp: dsn_edge_cell_def)
  next
    case False
    then show ?thesis
      using Cons [of cells cid] by (auto split: option.splits)
  qed
qed

lemma dsn_document:
  obtains vcells dc x y cid where
    "dsn_build_tree devices connections site =
       vcells @ map (dsn_edge_cell dc)
                  (enumerate cid
                     (filter (\<lambda>c. source c \<in> set devices \<and> target c \<in> set devices)
                             connections))"
    and "\<forall>v\<in>set vcells. \<not> is_edge v"
    and "\<forall>d i. dc d = Some i \<longrightarrow> shape_value vcells i = Some d"
    and "dom dc = set devices"
proof -
  obtain vcells dc x y cid where
    l: "dsn_device_loop site (sort (remdups devices)) ([], Map.empty, 100, 100, 2)
          = (vcells, dc, x, y, cid)"
    by (metis prod_cases5)
  have inv: "(\<forall>v\<in>set vcells. \<not> is_edge v \<and> cell_ident v < cid)
       \<and> (\<forall>d i. dc d = Some i \<longrightarrow> shape_value vcells i = Some d)
       \<and> dom dc = dom (Map.empty :: string \<rightharpoonup> nat) \<union> set (sort (remdups devices))"
    by (rule dsn_device_loop_inv [OF _ _ l]) simp_all
  then have dom: "dom dc = set devices" by simp
  have "d \<in> set devices \<longleftrightarrow> dc d \<noteq> None" for d
    using dom by (auto simp: dom_def)
  then have feq: "(\<lambda>c. dc (source c) \<noteq> None \<and> dc (target c) \<noteq> None)
      = (\<lambda>c. source c \<in> set devices \<and> target c \<in> set devices)"
    by auto
  have "dsn_build_tree devices connections site =
       vcells @ map (dsn_edge_cell dc)
                  (enumerate cid
                     (filter (\<lambda>c. dc (source c) \<noteq> None \<and> dc (target c) \<noteq> None)
                             connections))"
    by (simp only: dsn_build_tree_def l dsn_connection_loop_eq prod.case)
  then have "dsn_build_tree devices connections site =
       vcells @ map (dsn_edge_cell dc)
                  (enumerate cid
                     (filter (\<lambda>c. source c \<in> set devices \<and> target c \<in> set devices)
                             connections))"
    unfolding feq .
  then show thesis
    using inv dom that by blast
qed

section \<open>The console emitter\<close>

lemma foldl_map_upd:
  "foldl (\<lambda>m d. m(d \<mapsto> k)) m ds = (\<lambda>d. if d \<in> set ds then Some k else m d)"
  by (induction ds arbitrary: m) (auto simp: fun_eq_iff)

lemma shape_ids_append: "shape_ids (xs @ ys) = shape_ids xs \<union> shape_ids ys"
  by (auto simp: shape_ids_def)

lemma node_cell_shape [simp]: "\<not> is_edge (node_cell i n)" "cell_ident (node_cell i n) = i"
  by (simp_all add: node_cell_def)

lemma shape_ids_node_cell [simp]: "shape_ids [node_cell i n] = {i}"
proof -
  have "{v. v = node_cell i n \<and> \<not> is_edge v} = {node_cell i n}"
    by auto
  then show ?thesis
    by (simp add: shape_ids_def)
qed

lemma shape_ids_bound:
  "\<forall>v\<in>set cells. \<not> is_edge v \<and> cell_ident v < cid \<Longrightarrow> i \<in> shape_ids cells \<Longrightarrow> i < cid"
  by (auto simp: shape_ids_def)

lemma vertex_inv_step:
  assumes "vertex_inv (cells, node_ids, device_to_node, cid)"
  shows "vertex_inv (cells @ [node_cell cid nd], node_ids(k \<mapsto> cid),
           foldl (\<lambda>m device. m(device \<mapsto> k)) device_to_node (node_devices nd), cid + 1)"
proof -
  from assms have c: "\<forall>v\<in>set cells. \<not> is_edge v \<and> cell_ident v < cid"
    and i: "\<forall>k i. node_ids k = Some i \<longrightarrow> i \<in> shape_ids cells"
    and j: "\<forall>k k' i. node_ids k = Some i \<longrightarrow> node_ids k' = Some i \<longrightarrow> k = k'"
    and d: "\<forall>d k. device_to_node d = Some k \<longrightarrow> node_ids k \<noteq> None"
    by (simp_all add: vertex_inv_def)
  have old: "node_ids k' = Some i \<Longrightarrow> i < cid" for k' i
    using i c shape_ids_bound by blast
  have 1: "\<forall>v\<in>set (cells @ [node_cell cid nd]). \<not> is_edge v \<and> cell_ident v < cid + 1"
    using c by auto
  have 2: "\<forall>k' i. (node_ids(k \<mapsto> cid)) k' = Some i \<longrightarrow> i \<in> shape_ids (cells @ [node_cell cid nd])"
    using i by (auto simp: shape_ids_append)
  have 3: "\<forall>k1 k2 i. (node_ids(k \<mapsto> cid)) k1 = Some i \<longrightarrow> (node_ids(k \<mapsto> cid)) k2 = Some i \<longrightarrow> k1 = k2"
    using j old by (fastforce split: if_splits)
  have 4: "\<forall>d k'. foldl (\<lambda>m device. m(device \<mapsto> k)) device_to_node (node_devices nd) d = Some k'
             \<longrightarrow> (node_ids(k \<mapsto> cid)) k' \<noteq> None"
    using d by (auto simp: foldl_map_upd split: if_splits)
  from 1 2 3 4 show ?thesis
    unfolding vertex_inv_def by (simp only: prod.case)
qed

lemma vertex_loop_inv: "vertex_inv st \<Longrightarrow> vertex_inv (vertex_loop nodes st)"
proof (induction nodes st rule: vertex_loop.induct)
  case (1 st)
  then show ?case by simp
next
  case (2 node_key node_data nodes cells node_ids device_to_node cell_id)
  then show ?case using vertex_inv_step by simp
qed

lemma vertex_inv_init: "vertex_inv ([], Map.empty, Map.empty, 2)"
  by (simp add: vertex_inv_def)

lemma vertex_loop_dom:
  "dom (fst (snd (snd (vertex_loop nodes (cells, node_ids, device_to_node, cid)))))
     = dom device_to_node \<union> placed_devices nodes"
proof (induction nodes arbitrary: cells node_ids device_to_node cid)
  case Nil
  show ?case by (simp add: placed_devices_def)
next
  case (Cons n nodes)
  obtain k nd where n: "n = (k, nd)" by (cases n)
  have "dom (foldl (\<lambda>m device. m(device \<mapsto> k)) device_to_node (node_devices nd))
          = dom device_to_node \<union> set (node_devices nd)"
    by (auto simp: foldl_map_upd dom_def)
  then show ?case
    unfolding n by (simp add: Cons placed_devices_def Un_assoc)
qed

lemma not_falsy_Some: "\<not> falsy v \<Longrightarrow> \<exists>k. v = Some k \<and> k \<noteq> []"
  by (cases v) (auto simp: falsy_def)

lemma edge_loop_eq:
  assumes ok: "\<forall>d k. device_to_node d = Some k \<longrightarrow> node_ids k \<noteq> None"
  shows "edge_loop self_site node_ids device_to_node connections (cells, added, cid) =
     Inr (cells @ map (console_edge_cell self_site node_ids device_to_node)
                    (enumerate cid
                       (first_by (node_pair device_to_node) added
                          (filter (resolved_conn device_to_node) connections))))"
proof (induction connections arbitrary: cells added cid)
  case Nil
  show ?case by simp
next
  case (Cons c connections)
  let ?src = "device_to_node (conn_source c)"
  let ?dst = "device_to_node (conn_destination c)"
  show ?case
  proof (cases "resolved_conn device_to_node c")
    case False
    then have "falsy ?src \<or> falsy ?dst"
      by (simp add: resolved_conn_def)
    then show ?thesis
      using False Cons [of cells added cid] by (simp add: Let_def)
  next
    case True
    then have nf: "\<not> (falsy ?src \<or> falsy ?dst)"
      by (simp add: resolved_conn_def)
    then obtain ks kd where ks: "?src = Some ks" and kd: "?dst = Some kd"
      using not_falsy_Some by blast
    obtain s t where s: "node_ids ks = Some s" and t: "node_ids kd = Some t"
      using ok ks kd by blast
    have key: "node_pair device_to_node c = sorted_pair ks kd"
      by (simp add: node_pair_def ks kd)
    show ?thesis
    proof (cases "sorted_pair ks kd \<in> set added")
      case True
      then show ?thesis
        using \<open>resolved_conn device_to_node c\<close> nf key Cons [of cells added cid]
        by (simp add: Let_def ks kd)
    next
      case False
      have cell: "console_edge_cell self_site node_ids device_to_node (cid, c) =
          Edge cid None (edge_style self_site (conn_source c) (conn_destination c)) s t"
        by (simp add: console_edge_cell_def ks kd s t)
      show ?thesis
        using \<open>resolved_conn device_to_node c\<close> nf key False cell
          Cons [of "cells @ [Edge cid None (edge_style self_site (conn_source c) (conn_destination c)) s t]"
                   "sorted_pair ks kd # added" "cid + 1"]
        by (simp add: Let_def ks kd s t)
    qed
  qed
qed

text \<open>The element tree of \<open>_build_xml\<close>: the shapes, then one connector for the first edge of every pair of nodes.\<close>

lemma build_tree_document:
  obtains vcells cid where
    "build_tree self_site nodes connections =
       Inr (vcells @ map (console_edge_cell self_site (node_ids_of nodes) (device_to_node_of nodes))
                       (enumerate cid
                          (first_by (node_pair (device_to_node_of nodes)) []
                             (filter (resolved_conn (device_to_node_of nodes)) connections))))"
    and "vertex_inv (vcells, node_ids_of nodes, device_to_node_of nodes, cid)"
proof -
  obtain vcells ids dtn cid where
    l: "vertex_loop nodes ([], Map.empty, Map.empty, 2) = (vcells, ids, dtn, cid)"
    by (metis prod_cases4)
  have ids: "node_ids_of nodes = ids" and dtn: "device_to_node_of nodes = dtn"
    by (simp_all add: node_ids_of_def device_to_node_of_def l)
  have inv: "vertex_inv (vcells, ids, dtn, cid)"
    using vertex_loop_inv [OF vertex_inv_init, of nodes] by (simp add: l)
  then have ok: "\<forall>d k. dtn d = Some k \<longrightarrow> ids k \<noteq> None"
    by (simp add: vertex_inv_def)
  have "build_tree self_site nodes connections =
       Inr (vcells @ map (console_edge_cell self_site ids dtn)
                       (enumerate cid
                          (first_by (node_pair dtn) []
                             (filter (resolved_conn dtn) connections))))"
    by (simp add: build_tree_def l edge_loop_eq [OF ok])
  then show thesis
    using inv that unfolding ids dtn by blast
qed

lemma device_to_node_dom: "dom (device_to_node_of nodes) = placed_devices nodes"
  using vertex_loop_dom [of nodes "[]" Map.empty Map.empty 2]
  by (simp add: device_to_node_of_def)

section \<open>Connectors and the shapes they join\<close>

lemma map_snd_enumerate [simp]: "map snd (enumerate n xs) = xs"
  by (simp add: enumerate_eq_zip)

lemma snd_in_enumerate: "ic \<in> set (enumerate n xs) \<Longrightarrow> snd ic \<in> set xs"
  by (cases ic) (auto simp: enumerate_eq_zip dest: set_zip_rightD)

lemma length_filter_enumerate:
  "length (filter (\<lambda>ic. Q (snd ic)) (enumerate n xs)) = length (filter Q xs)"
  by (induction xs arbitrary: n) auto

subsection \<open>DSN\<close>

lemma dsn_connectors:
  "map (\<lambda>e. (shape_value (dsn_build_tree devices connections site) (edge_source e),
             shape_value (dsn_build_tree devices connections site) (edge_target e),
             edge_value e))
       (filter is_edge (dsn_build_tree devices connections site))
   = map (\<lambda>c. (Some (source c), Some (target c), Some (ctype c)))
       (filter (\<lambda>c. source c \<in> set devices \<and> target c \<in> set devices) connections)"
proof -
  let ?F = "filter (\<lambda>c. source c \<in> set devices \<and> target c \<in> set devices) connections"
  obtain vcells dc x y cid where
    doc: "dsn_build_tree devices connections site =
            vcells @ map (dsn_edge_cell dc) (enumerate cid ?F)"
    and shapes: "\<forall>v\<in>set vcells. \<not> is_edge v"
    and vals: "\<forall>d i. dc d = Some i \<longrightarrow> shape_value vcells i = Some d"
    and dom: "dom dc = set devices"
    by (rule dsn_document)
  let ?doc = "vcells @ map (dsn_edge_cell dc) (enumerate cid ?F)"
  have edges: "filter is_edge ?doc = map (dsn_edge_cell dc) (enumerate cid ?F)"
    using shapes by (auto simp: filter_empty_conv filter_id_conv dsn_edge_cell_def)
  have named: "shape_value ?doc (the (dc d)) = Some d" if "d \<in> set devices" for d
  proof -
    from that dom obtain i where "dc d = Some i" by auto
    then show ?thesis
      using vals by (auto intro: shape_value_append_found)
  qed
  have "map (\<lambda>e. (shape_value ?doc (edge_source e), shape_value ?doc (edge_target e), edge_value e))
            (map (dsn_edge_cell dc) (enumerate cid ?F))
        = map (\<lambda>ic. (Some (source (snd ic)), Some (target (snd ic)), Some (ctype (snd ic))))
            (enumerate cid ?F)"
  proof (simp only: map_map, rule map_cong [OF refl])
    fix ic assume "ic \<in> set (enumerate cid ?F)"
    then have "snd ic \<in> set ?F" by (rule snd_in_enumerate)
    then have "source (snd ic) \<in> set devices" "target (snd ic) \<in> set devices"
      by auto
    then show "((\<lambda>e. (shape_value ?doc (edge_source e), shape_value ?doc (edge_target e),
                       edge_value e)) \<circ> dsn_edge_cell dc) ic
        = (Some (source (snd ic)), Some (target (snd ic)), Some (ctype (snd ic)))"
      using named by (cases ic) (simp add: dsn_edge_cell_def)
  qed
  also have "\<dots> = map (\<lambda>c. (Some (source c), Some (target c), Some (ctype c)))
                      (map snd (enumerate cid ?F))"
    by (simp only: map_map comp_def)
  finally show ?thesis
    unfolding doc edges by simp
qed

subsection \<open>Console\<close>

lemma resolved_conn_ids:
  assumes "vertex_inv (vcells, node_ids, device_to_node, cid)"
    and "resolved_conn device_to_node c"
  obtains ks kd s t where
    "device_to_node (conn_source c) = Some ks" "device_to_node (conn_destination c) = Some kd"
    "node_ids ks = Some s" "node_ids kd = Some t"
    "s \<in> shape_ids vcells" "t \<in> shape_ids vcells"
proof -
  from assms(2) obtain ks kd where
    k: "device_to_node (conn_source c) = Some ks" "device_to_node (conn_destination c) = Some kd"
    unfolding resolved_conn_def using not_falsy_Some by blast
  from assms(1) have ok: "\<forall>d k. device_to_node d = Some k \<longrightarrow> node_ids k \<noteq> None"
    and sh: "\<forall>k i. node_ids k = Some i \<longrightarrow> i \<in> shape_ids vcells"
    by (simp_all add: vertex_inv_def)
  from ok k obtain s t where st: "node_ids ks = Some s" "node_ids kd = Some t"
    by blast
  with sh have "s \<in> shape_ids vcells" "t \<in> shape_ids vcells"
    by blast+
  with k st show thesis using that by blast
qed

lemma resolved_conn_ids_ex:
  assumes "vertex_inv (vcells, node_ids, device_to_node, cid)"
    and "resolved_conn device_to_node c"
  shows "\<exists>ks kd s t.
    device_to_node (conn_source c) = Some ks \<and> device_to_node (conn_destination c) = Some kd
    \<and> node_ids ks = Some s \<and> node_ids kd = Some t"
  using resolved_conn_ids [OF assms] by metis

lemma console_no_dangling:
  assumes "build_tree self_site nodes connections = Inr doc"
    and "e \<in> set doc" and "is_edge e"
  shows "edge_source e \<in> shape_ids doc \<and> edge_target e \<in> shape_ids doc"
proof -
  let ?dtn = "device_to_node_of nodes"
  let ?ids = "node_ids_of nodes"
  let ?L = "first_by (node_pair ?dtn) [] (filter (resolved_conn ?dtn) connections)"
  obtain vcells cid where
    d: "build_tree self_site nodes connections =
          Inr (vcells @ map (console_edge_cell self_site ?ids ?dtn) (enumerate cid ?L))"
    and inv: "vertex_inv (vcells, ?ids, ?dtn, cid)"
    by (rule build_tree_document)
  from inv have "\<forall>v\<in>set vcells. \<not> is_edge v"
    by (simp add: vertex_inv_def)
  with assms d obtain ic where ic: "ic \<in> set (enumerate cid ?L)"
    and e: "e = console_edge_cell self_site ?ids ?dtn ic"
    by auto
  from ic have "snd ic \<in> set ?L" by (rule snd_in_enumerate)
  then have "resolved_conn ?dtn (snd ic)"
    using first_by_subset [of "node_pair ?dtn" "[]" "filter (resolved_conn ?dtn) connections"]
    by auto
  from resolved_conn_ids [OF inv this] obtain ks kd s t where
    "?dtn (conn_source (snd ic)) = Some ks" "?dtn (conn_destination (snd ic)) = Some kd"
    "?ids ks = Some s" "?ids kd = Some t" "s \<in> shape_ids vcells" "t \<in> shape_ids vcells"
    by blast
  then have "edge_source e \<in> shape_ids vcells \<and> edge_target e \<in> shape_ids vcells"
    unfolding e by (cases ic) (simp add: console_edge_cell_def)
  moreover from assms(1) d have "doc = vcells @ map (console_edge_cell self_site ?ids ?dtn) (enumerate cid ?L)"
    by simp
  ultimately show ?thesis
    by (simp add: shape_ids_append)
qed

lemma console_unplaced_omitted:
  "build_tree self_site nodes
     (filter (\<lambda>c. conn_source c \<in> placed_devices nodes \<and> conn_destination c \<in> placed_devices nodes)
             connections)
   = build_tree self_site nodes connections"
proof -
  let ?dtn = "device_to_node_of nodes"
  have "resolved_conn ?dtn c \<Longrightarrow>
      conn_source c \<in> placed_devices nodes \<and> conn_destination c \<in> placed_devices nodes" for c
    using not_falsy_Some [of "?dtn (conn_source c)"] not_falsy_Some [of "?dtn (conn_destination c)"]
      device_to_node_dom [of nodes]
    unfolding resolved_conn_def by blast
  then have feq: "filter (resolved_conn ?dtn)
       (filter (\<lambda>c. conn_source c \<in> placed_devices nodes \<and> conn_destination c \<in> placed_devices nodes)
               connections)
     = filter (resolved_conn ?dtn) connections"
    by (auto intro: filter_cong)
  obtain vcells ids dtn cid where
    l: "vertex_loop nodes ([], Map.empty, Map.empty, 2) = (vcells, ids, dtn, cid)"
    by (metis prod_cases4)
  have dtn: "?dtn = dtn"
    by (simp add: device_to_node_of_def l)
  have "vertex_inv (vcells, ids, dtn, cid)"
    using vertex_loop_inv [OF vertex_inv_init, of nodes] by (simp add: l)
  then have ok: "\<forall>d k. dtn d = Some k \<longrightarrow> ids k \<noteq> None"
    by (simp add: vertex_inv_def)
  show ?thesis
    using feq unfolding dtn build_tree_def l prod.case edge_loop_eq [OF ok] by simp
qed

lemma id_pair_eq_iff:
  assumes inj: "\<forall>k k' i. f k = Some i \<longrightarrow> f k' = Some i \<longrightarrow> k = k'"
    and "f a = Some s" "f b = Some t" "f a' = Some s'" "f b' = Some t'"
  shows "{s', t'} = {s, t} \<longleftrightarrow> {a', b'} = {a, b}"
proof
  assume "{s', t'} = {s, t}"
  then have "s' = s \<and> t' = t \<or> s' = t \<and> t' = s"
    by (simp add: doubleton_eq_iff)
  then have "a' = a \<and> b' = b \<or> a' = b \<and> b' = a"
    using assms by metis
  then show "{a', b'} = {a, b}"
    by (simp add: doubleton_eq_iff)
next
  assume "{a', b'} = {a, b}"
  then have "a' = a \<and> b' = b \<or> a' = b \<and> b' = a"
    by (simp add: doubleton_eq_iff)
  then have "s' = s \<and> t' = t \<or> s' = t \<and> t' = s"
    using assms(2-) by (metis option.inject)
  then show "{s', t'} = {s, t}"
    by (simp add: doubleton_eq_iff)
qed

lemma console_pair_connector:
  assumes doc: "build_tree self_site nodes connections = Inr doc"
    and c: "c \<in> set connections"
    and r: "resolved_conn (device_to_node_of nodes) c"
  shows "length (filter (\<lambda>e. is_edge e \<and> {edge_source e, edge_target e}
                             = {shape_of nodes (conn_source c), shape_of nodes (conn_destination c)})
                        doc) = 1"
proof -
  let ?dtn = "device_to_node_of nodes"
  let ?ids = "node_ids_of nodes"
  let ?R = "filter (resolved_conn ?dtn) connections"
  let ?L = "first_by (node_pair ?dtn) [] ?R"
  let ?cell = "console_edge_cell self_site ?ids ?dtn"
  let ?target = "{shape_of nodes (conn_source c), shape_of nodes (conn_destination c)}"
  let ?P = "\<lambda>e. is_edge e \<and> {edge_source e, edge_target e} = ?target"
  let ?Q = "\<lambda>c'. {shape_of nodes (conn_source c'), shape_of nodes (conn_destination c')} = ?target"
  obtain vcells cid where
    d: "build_tree self_site nodes connections = Inr (vcells @ map ?cell (enumerate cid ?L))"
    and inv: "vertex_inv (vcells, ?ids, ?dtn, cid)"
    by (rule build_tree_document)
  from inv have shapes: "\<forall>v\<in>set vcells. \<not> is_edge v"
    and inj: "\<forall>k k' i. ?ids k = Some i \<longrightarrow> ?ids k' = Some i \<longrightarrow> k = k'"
    by (simp_all add: vertex_inv_def)
  have docd: "doc = vcells @ map ?cell (enumerate cid ?L)"
    using doc d by simp
  have "filter ?P vcells = []"
    using shapes by (auto simp: filter_empty_conv)
  then have s1: "length (filter ?P doc) = length (filter ?P (map ?cell (enumerate cid ?L)))"
    unfolding docd by simp
  have "?P (?cell ic) = ?Q (snd ic)" for ic
    by (cases ic) (simp add: console_edge_cell_def shape_of_def)
  then have "filter ?P (map ?cell (enumerate cid ?L))
      = map ?cell (filter (\<lambda>ic. ?Q (snd ic)) (enumerate cid ?L))"
    by (simp add: filter_map comp_def)
  then have s2: "length (filter ?P (map ?cell (enumerate cid ?L)))
      = length (filter (\<lambda>ic. ?Q (snd ic)) (enumerate cid ?L))"
    by (simp only: length_map)
  have s3: "length (filter (\<lambda>ic. ?Q (snd ic)) (enumerate cid ?L)) = length (filter ?Q ?L)"
    by (rule length_filter_enumerate)
  have "length (filter ?P doc) = length (filter ?Q ?L)"
    using s1 s2 s3 by (rule trans [OF trans])
  moreover have "filter ?Q ?L = filter (\<lambda>c'. node_pair ?dtn c' = node_pair ?dtn c) ?L"
  proof (rule filter_cong [OF refl])
    fix c' assume "c' \<in> set ?L"
    then have "resolved_conn ?dtn c'"
      using first_by_subset [of "node_pair ?dtn" "[]" ?R] by auto
    from resolved_conn_ids_ex [OF inv this] obtain a' b' s' t' where
      1: "?dtn (conn_source c') = Some a'" "?dtn (conn_destination c') = Some b'"
        "?ids a' = Some s'" "?ids b' = Some t'"
      by auto
    from resolved_conn_ids_ex [OF inv r] obtain a b s t where
      2: "?dtn (conn_source c) = Some a" "?dtn (conn_destination c) = Some b"
        "?ids a = Some s" "?ids b = Some t"
      by auto
    have "{s', t'} = {s, t} \<longleftrightarrow> {a', b'} = {a, b}"
      using inj 2(3,4) 1(3,4) by (rule id_pair_eq_iff)
    moreover have "?Q c' \<longleftrightarrow> {s', t'} = {s, t}"
      by (simp only: shape_of_def 1 2 option.sel)
    moreover have "node_pair ?dtn c' = node_pair ?dtn c \<longleftrightarrow> {a', b'} = {a, b}"
      by (simp only: node_pair_def 1 2 option.sel sorted_pair_eq_iff)
    ultimately show "?Q c' = (node_pair ?dtn c' = node_pair ?dtn c)"
      by blast
  qed
  moreover have "length (filter (\<lambda>c'. node_pair ?dtn c' = node_pair ?dtn c) ?L) = 1"
  proof -
    from c r have "c \<in> set ?R" by simp
    then obtain e where "find (\<lambda>c'. node_pair ?dtn c' = node_pair ?dtn c) ?R = Some e"
      using find_member_Some [of c ?R "\<lambda>c'. node_pair ?dtn c' = node_pair ?dtn c"] by auto
    then have "filter (\<lambda>c'. node_pair ?dtn c' = node_pair ?dtn c) ?L = [e]"
      by (rule first_by_single)
    then show ?thesis
      by (simp only: list.size length_Cons)
  qed
  ultimately show ?thesis by (simp only:)
qed

section \<open>The console document, node by node\<close>

lemma written_cell_edge [simp]:
  "is_edge (written_cell c) = is_edge c"
  "cell_ident (written_cell c) = cell_ident c"
  "is_edge c \<Longrightarrow> edge_source (written_cell c) = edge_source c"
  "is_edge c \<Longrightarrow> edge_target (written_cell c) = edge_target c"
  by (cases c; simp)+

lemma build_xml_Inr:
  assumes "build_xml self_site self_fabric nodes connections = Inr doc"
  obtains cells where "build_tree self_site nodes connections = Inr cells"
    and "doc = map written_cell cells"
  using assms
  by (auto simp: build_xml_def write_document_def split: sum.splits if_splits)

lemma vertex_loop_cells:
  "fst (vertex_loop nodes (cells, node_ids, device_to_node, cid))
     = cells @ map (\<lambda>ikn. node_cell (fst ikn) (snd (snd ikn))) (enumerate cid nodes)"
proof (induction nodes arbitrary: cells node_ids device_to_node cid)
  case Nil
  show ?case by simp
next
  case (Cons n nodes)
  obtain k nd where n: "n = (k, nd)" by (cases n)
  show ?case
    unfolding n by (simp add: Cons)
qed

lemma vertex_loop_cell_id:
  "snd (snd (snd (vertex_loop nodes (cells, node_ids, device_to_node, cid)))) = cid + length nodes"
proof (induction nodes arbitrary: cells node_ids device_to_node cid)
  case Nil
  show ?case by simp
next
  case (Cons n nodes)
  obtain k nd where n: "n = (k, nd)" by (cases n)
  show ?case
    unfolding n by (simp add: Cons)
qed

lemma vertex_loop_device_to_node:
  "fst (snd (snd (vertex_loop nodes (cells, node_ids, device_to_node, cid)))) d
     = (case holder nodes d of Some k \<Rightarrow> Some k | None \<Rightarrow> device_to_node d)"
proof (induction nodes arbitrary: cells node_ids device_to_node cid)
  case Nil
  show ?case by simp
next
  case (Cons n nodes)
  obtain k nd where n: "n = (k, nd)" by (cases n)
  have "foldl (\<lambda>m device. m(device \<mapsto> k)) device_to_node (node_devices nd) d
      = (if d \<in> set (node_devices nd) then Some k else device_to_node d)"
    by (simp add: foldl_map_upd)
  then show ?case
    unfolding n by (simp add: Cons split: option.splits)
qed

lemma vertex_loop_node_ids:
  assumes "distinct (map fst nodes)"
  shows "fst (snd (vertex_loop nodes (cells, node_ids, device_to_node, cid))) k
     = (if k \<in> fst ` set nodes
        then Some (cid + length (takeWhile (\<lambda>kn. fst kn \<noteq> k) nodes))
        else node_ids k)"
  using assms
proof (induction nodes arbitrary: cells node_ids device_to_node cid)
  case Nil
  show ?case by simp
next
  case (Cons n nodes)
  obtain k0 nd where n: "n = (k0, nd)" by (cases n)
  from Cons.prems have d: "distinct (map fst nodes)" and k0: "k0 \<notin> fst ` set nodes"
    unfolding n by simp_all
  show ?case
    unfolding n using k0 by (auto simp: Cons.IH [OF d])
qed

lemma device_to_node_of_holder: "device_to_node_of nodes = holder nodes"
proof
  fix d
  show "device_to_node_of nodes d = holder nodes d"
    unfolding device_to_node_of_def
    using vertex_loop_device_to_node [of nodes "[]" Map.empty Map.empty 2 d]
    by (simp split: option.splits)
qed

lemma holder_key: "holder nodes d = Some k \<Longrightarrow> k \<in> fst ` set nodes"
  by (induction nodes d rule: holder.induct) (auto split: option.splits if_splits)

lemma holder_lists:
  "holder nodes d = Some k \<Longrightarrow> \<exists>n. (k, n) \<in> set nodes \<and> d \<in> set (node_devices n)"
  by (induction nodes d rule: holder.induct) (auto split: option.splits if_splits)

lemma node_ids_of_shape_id:
  assumes "distinct (map fst nodes)" and "k \<in> fst ` set nodes"
  shows "node_ids_of nodes k = Some (shape_id nodes k)"
  unfolding node_ids_of_def shape_id_def
  using vertex_loop_node_ids [OF assms(1), of "[]" Map.empty Map.empty 2 k] assms(2)
  by simp

lemma shape_of_shape_id:
  assumes "distinct (map fst nodes)" and "holder nodes d = Some k"
  shows "shape_of nodes d = shape_id nodes k"
  using node_ids_of_shape_id [OF assms(1) holder_key [OF assms(2)]] assms(2)
  by (simp add: shape_of_def device_to_node_of_holder)

lemma build_tree_shapes:
  assumes "build_tree self_site nodes connections = Inr cells"
  shows "take (length nodes) cells
     = map (\<lambda>ikn. node_cell (fst ikn) (snd (snd ikn))) (enumerate 2 nodes)"
proof -
  obtain vcells ids dtn cid where
    l: "vertex_loop nodes ([], Map.empty, Map.empty, 2) = (vcells, ids, dtn, cid)"
    by (metis prod_cases4)
  have v: "vcells = map (\<lambda>ikn. node_cell (fst ikn) (snd (snd ikn))) (enumerate 2 nodes)"
    using vertex_loop_cells [of nodes "[]" Map.empty Map.empty 2] by (simp add: l)
  have "vertex_inv (vcells, ids, dtn, cid)"
    using vertex_loop_inv [OF vertex_inv_init, of nodes] by (simp add: l)
  then have ok: "\<forall>d k. dtn d = Some k \<longrightarrow> ids k \<noteq> None"
    by (simp add: vertex_inv_def)
  from assms obtain es where "cells = vcells @ es"
    by (auto simp: build_tree_def l edge_loop_eq [OF ok])
  then show ?thesis
    by (simp add: v)
qed

lemma nth_key_index:
  assumes "distinct (map fst nodes)" and "(k, n) \<in> set nodes"
  shows "length (takeWhile (\<lambda>kn. fst kn \<noteq> k) nodes) < length nodes
       \<and> nodes ! length (takeWhile (\<lambda>kn. fst kn \<noteq> k) nodes) = (k, n)"
  using assms
proof (induction nodes)
  case Nil
  then show ?case by simp
next
  case (Cons a nodes)
  show ?case
  proof (cases "fst a = k")
    case True
    with Cons.prems have "a = (k, n)"
      by (cases a) (auto simp: image_iff)
    then show ?thesis by simp
  next
    case False
    with Cons show ?thesis by auto
  qed
qed

text \<open>Every node has its shape in the document, with the number of its place.\<close>

lemma console_node_shape:
  assumes doc: "build_xml self_site self_fabric nodes connections = Inr doc"
    and dist: "distinct (map fst nodes)" and kn: "(k, n) \<in> set nodes"
  shows "written_cell (node_cell (shape_id nodes k) n) \<in> set doc"
proof -
  from doc obtain cells where t: "build_tree self_site nodes connections = Inr cells"
    and d: "doc = map written_cell cells"
    by (rule build_xml_Inr)
  let ?i = "length (takeWhile (\<lambda>kn. fst kn \<noteq> k) nodes)"
  from nth_key_index [OF dist kn] have i: "?i < length nodes" and nth: "nodes ! ?i = (k, n)"
    by simp_all
  have "(2 + ?i, (k, n)) \<in> set (enumerate 2 nodes)"
    using i nth by (simp add: in_set_enumerate_eq)
  then have "node_cell (2 + ?i) n
      \<in> set (map (\<lambda>ikn. node_cell (fst ikn) (snd (snd ikn))) (enumerate 2 nodes))"
    by force
  then have "node_cell (shape_id nodes k) n \<in> set (take (length nodes) cells)"
    unfolding build_tree_shapes [OF t] shape_id_def .
  then have "node_cell (shape_id nodes k) n \<in> set cells"
    by (rule in_set_takeD)
  then show ?thesis
    unfolding d by simp
qed

text \<open>
  Between the shapes of two nodes that an edge joins there is exactly one connector,
  however many edges join them and in whichever direction.
\<close>

lemma console_node_pair_connector:
  assumes doc: "build_xml self_site self_fabric nodes connections = Inr doc"
    and dist: "distinct (map fst nodes)" and c: "c \<in> set connections"
    and s: "holder nodes (conn_source c) = Some k1"
    and t: "holder nodes (conn_destination c) = Some k2"
    and ne: "k1 \<noteq> []" "k2 \<noteq> []"
  shows "length (filter (\<lambda>e. is_edge e \<and> {edge_source e, edge_target e}
                             = {shape_id nodes k1, shape_id nodes k2}) doc) = 1"
proof -
  let ?P = "\<lambda>e. is_edge e \<and> {edge_source e, edge_target e}
                             = {shape_id nodes k1, shape_id nodes k2}"
  from doc obtain cells where tr: "build_tree self_site nodes connections = Inr cells"
    and d: "doc = map written_cell cells"
    by (rule build_xml_Inr)
  have r: "resolved_conn (device_to_node_of nodes) c"
    using s t ne by (simp add: resolved_conn_def device_to_node_of_holder falsy_def)
  have "length (filter (\<lambda>e. is_edge e \<and> {edge_source e, edge_target e}
                             = {shape_of nodes (conn_source c), shape_of nodes (conn_destination c)})
                        cells) = 1"
    using tr c r by (rule console_pair_connector)
  then have 1: "length (filter ?P cells) = 1"
    unfolding shape_of_shape_id [OF dist s] shape_of_shape_id [OF dist t] .
  have "?P (written_cell e) = ?P e" for e
    by (cases "is_edge e") simp_all
  then have "filter ?P (map written_cell cells) = map written_cell (filter ?P cells)"
    by (simp add: filter_map comp_def)
  then have "length (filter ?P doc) = length (filter ?P cells)"
    unfolding d by (simp only: length_map)
  with 1 show ?thesis by simp
qed

section \<open>The console pipeline does not depend on the order of set iteration\<close>

lemma sort_distinct_set:
  fixes xs ys :: "string list"
  assumes "distinct xs" "distinct ys" "set xs = set ys"
  shows "sort xs = sort ys"
proof -
  have "sort xs = sorted_list_of_set (set xs)"
    using assms(1) by (simp add: sorted_list_of_set_sort_remdups distinct_remdups_id)
  moreover have "sort ys = sorted_list_of_set (set ys)"
    using assms(2) by (simp add: sorted_list_of_set_sort_remdups distinct_remdups_id)
  ultimately show ?thesis
    using assms(3) by simp
qed

lemma console_group_devices_order:
  assumes "distinct xs" "distinct ys" "set xs = set ys"
  shows "console_group_devices (filter P xs) = console_group_devices (filter P ys)"
proof -
  have "sort (filter P xs) = sort (filter P ys)"
    using assms by (intro sort_distinct_set) auto
  then show ?thesis
    by (simp add: console_group_devices_def)
qed

lemma extract_topology_data_order:
  assumes "distinct it1" "distinct it2" "set it1 = set it2"
  shows "td_type_groups (extract_topology_data self_site nodes it1)
           = td_type_groups (extract_topology_data self_site nodes it2)"
    and "td_inter_groups (extract_topology_data self_site nodes it1)
           = td_inter_groups (extract_topology_data self_site nodes it2)"
    and "td_connections (extract_topology_data self_site nodes it1)
           = td_connections (extract_topology_data self_site nodes it2)"
  using console_group_devices_order [OF assms, of "\<lambda>d. prefix self_site d"]
    console_group_devices_order [OF assms, of "\<lambda>d. \<not> prefix self_site d"]
  by (simp_all add: extract_topology_data_def Let_def)

section \<open>The line-oriented extractor\<close>

lemma hostname_loop_append:
  "hostname_loop (ls @ ms) st =
     (case hostname_loop ls st of Inl e \<Rightarrow> Inl e | Inr st' \<Rightarrow> hostname_loop ms st')"
proof (induction ls arbitrary: st)
  case Nil
  show ?case by simp
next
  case (Cons l ls)
  obtain cur devs where st: "st = (cur, devs)" by (cases st)
  show ?case
    unfolding st by (simp add: Cons Let_def split: list.splits)
qed

lemma hostname_loop_error:
  "hostname_loop ls st = Inl e \<Longrightarrow>
     e = IndexError \<and> (\<exists>l\<in>set (hostname_lines ls). length (split_ws [] l) < 2)"
proof (induction ls arbitrary: st)
  case Nil
  then show ?case by simp
next
  case (Cons l ls)
  obtain cur devs where st: "st = (cur, devs)" by (cases st)
  from Cons.prems show ?case
    unfolding st hostname_lines_def
    by (auto simp: Let_def split: if_splits list.splits dest!: Cons.IH [unfolded hostname_lines_def])
qed

lemma hostname_loop_total:
  "\<forall>l\<in>set (hostname_lines ls). 2 \<le> length (split_ws [] l) \<Longrightarrow> \<exists>st'. hostname_loop ls st = Inr st'"
  using hostname_loop_error [of ls st] by (cases "hostname_loop ls st") fastforce+

lemma hostname_loop_current:
  "hostname_loop ls (None, devs) = Inr (cur, devs') \<Longrightarrow> cur = last_hostname ls"
proof (induction ls arbitrary: cur devs' rule: rev_induct)
  case Nil
  then show ?case by (simp add: last_hostname_def hostname_lines_def)
next
  case (snoc l ls)
  from snoc.prems obtain c1 d1 where 1: "hostname_loop ls (None, devs) = Inr (c1, d1)"
    and 2: "hostname_loop [l] (c1, d1) = Inr (cur, devs')"
    by (auto simp: hostname_loop_append split: sum.splits)
  from snoc.IH [OF 1] have c1: "c1 = last_hostname ls" .
  show ?case
  proof (cases "prefix ''HOSTNAME'' (strip l)")
    case True
    with 2 show ?thesis
      by (auto simp: last_hostname_def hostname_lines_def Let_def split: list.splits)
  next
    case False
    with 2 c1 show ?thesis
      by (simp add: last_hostname_def hostname_lines_def Let_def)
  qed
qed

lemma lag_loop_sources:
  "lag_loop keyword conn_type cur ls (devs, conns) = (devs', conns') \<Longrightarrow> e \<in> set conns' \<Longrightarrow>
     e \<in> set conns \<or> cur = Some (source e)"
proof (induction ls arbitrary: devs conns)
  case Nil
  then show ?case by simp
next
  case (Cons l ls)
  show ?case
  proof (cases "prefix keyword (strip l) \<and> contains ''DESC'' (strip l)")
    case False
    with Cons.prems Cons.IH [of devs conns] show ?thesis
      by (auto simp: Let_def)
  next
    case True
    let ?d = "last (split_ws [] (strip l))"
    let ?c = "if falsy cur then conns
              else conns @ [\<lparr>source = the cur, target = ?d, ctype = conn_type\<rparr>]"
    from True Cons.prems(1) have "lag_loop keyword conn_type cur ls (insert ?d devs, ?c) = (devs', conns')"
      by (simp add: Let_def)
    from Cons.IH [OF this Cons.prems(2)] show ?thesis
      by (cases cur) (auto simp: falsy_def split: if_splits)
  qed
qed

lemma peer_loop_sources:
  "peer_loop cur ls (devs, conns) = (devs', conns') \<Longrightarrow> e \<in> set conns' \<Longrightarrow>
     e \<in> set conns \<or> cur = Some (source e)"
proof (induction ls arbitrary: devs conns)
  case Nil
  then show ?case by simp
next
  case (Cons l ls)
  show ?case
  proof (cases "contains ''PEER'' (strip l) \<and> \<not> excluded_neighbor (strip l)
                \<and> 3 \<le> length (split_ws [] (strip l))")
    case False
    then have "peer_loop cur (l # ls) (devs, conns) = peer_loop cur ls (devs, conns)"
      by (auto simp: Let_def)
    with Cons.prems have "peer_loop cur ls (devs, conns) = (devs', conns')"
      by simp
    from Cons.IH [OF this Cons.prems(2)] show ?thesis .
  next
    case True
    let ?d = "last (split_ws [] (strip l))"
    let ?c = "if falsy cur then conns
              else conns @ [\<lparr>source = the cur, target = ?d,
                             ctype = (if contains ''FWPEER'' (strip l) then ''nap_firewall''
                                      else ''nap_inter_region'')\<rparr>]"
    from True Cons.prems(1) have "peer_loop cur ls (insert ?d devs, ?c) = (devs', conns')"
      by (simp add: Let_def)
    from Cons.IH [OF this Cons.prems(2)] show ?thesis
      by (cases cur) (auto simp: falsy_def split: if_splits)
  qed
qed

lemma parse_attr_lines_sources:
  assumes "parse_attr_lines ls = Inr (devs, conns)" and "e \<in> set conns"
  shows "last_hostname ls = Some (source e)"
proof -
  from assms(1) obtain cur d0 where h: "hostname_loop ls (None, {}) = Inr (cur, d0)"
    and r: "peer_loop cur ls
              (lag_loop ''RINGLAG'' ''ring'' cur ls
                (lag_loop ''CUSTOMERLAG'' ''customer'' cur ls (d0, []))) = (devs, conns)"
    by (auto simp: parse_attr_lines_def split: sum.splits)
  obtain d1 c1 where 1: "lag_loop ''CUSTOMERLAG'' ''customer'' cur ls (d0, []) = (d1, c1)"
    by (metis surj_pair)
  obtain d2 c2 where 2: "lag_loop ''RINGLAG'' ''ring'' cur ls (d1, c1) = (d2, c2)"
    by (metis surj_pair)
  from r have 3: "peer_loop cur ls (d2, c2) = (devs, conns)"
    by (simp add: 1 2)
  have "cur = Some (source e)"
    using peer_loop_sources [OF 3 assms(2)] lag_loop_sources [OF 2] lag_loop_sources [OF 1]
    by auto
  with hostname_loop_current [OF h] show ?thesis by simp
qed

subsection \<open>Lines of the denylist\<close>

lemma excluded_neighbor_keywords:
  assumes "excluded_neighbor line"
  shows "\<not> prefix ''HOSTNAME'' line" "\<not> prefix ''CUSTOMERLAG'' line" "\<not> prefix ''RINGLAG'' line"
  using assms by (auto simp: excluded_neighbor_def prefix_def)

lemma hostname_loop_excluded:
  "hostname_loop (filter (\<lambda>l. \<not> excluded_neighbor (strip l)) ls) st = hostname_loop ls st"
proof (induction ls arbitrary: st)
  case Nil
  show ?case by simp
next
  case (Cons l ls)
  obtain cur devs where st: "st = (cur, devs)" by (cases st)
  show ?case
  proof (cases "excluded_neighbor (strip l)")
    case True
    then have "hostname_loop (l # ls) st = hostname_loop ls st"
      unfolding st using excluded_neighbor_keywords(1) by (simp add: Let_def)
    with True Cons show ?thesis by simp
  next
    case False
    then show ?thesis
      unfolding st by (simp add: Cons Let_def split: list.splits)
  qed
qed

lemma lag_loop_excluded:
  assumes "\<And>line. excluded_neighbor line \<Longrightarrow> \<not> prefix keyword line"
  shows "lag_loop keyword conn_type cur (filter (\<lambda>l. \<not> excluded_neighbor (strip l)) ls) st
           = lag_loop keyword conn_type cur ls st"
proof (induction ls arbitrary: st)
  case Nil
  show ?case by simp
next
  case (Cons l ls)
  obtain devs conns where st: "st = (devs, conns)" by (cases st)
  show ?case
  proof (cases "excluded_neighbor (strip l)")
    case True
    then have "lag_loop keyword conn_type cur (l # ls) st = lag_loop keyword conn_type cur ls st"
      unfolding st using assms by (simp add: Let_def)
    with True Cons show ?thesis by simp
  next
    case False
    then show ?thesis
      unfolding st by (simp add: Cons Let_def)
  qed
qed

lemma peer_loop_excluded:
  "peer_loop cur (filter (\<lambda>l. \<not> excluded_neighbor (strip l)) ls) st = peer_loop cur ls st"
proof (induction ls arbitrary: st)
  case Nil
  show ?case by simp
next
  case (Cons l ls)
  obtain devs conns where st: "st = (devs, conns)" by (cases st)
  show ?case
  proof (cases "excluded_neighbor (strip l)")
    case True
    then have "peer_loop cur (l # ls) st = peer_loop cur ls st"
      unfolding st by (simp add: Let_def)
    with True Cons show ?thesis by simp
  next
    case False
    then show ?thesis
      unfolding st by (simp add: Cons Let_def)
  qed
qed

lemma parse_attr_lines_excluded:
  "parse_attr_lines (filter (\<lambda>l. \<not> excluded_neighbor (strip l)) ls) = parse_attr_lines ls"
  unfolding parse_attr_lines_def
  by (simp only: hostname_loop_excluded peer_loop_excluded
      lag_loop_excluded [OF excluded_neighbor_keywords(2)]
      lag_loop_excluded [OF excluded_neighbor_keywords(3)])

section \<open>Site filtering\<close>

lemma split_char_length: "length (split_char sep piece s) = Suc (length (filter (\<lambda>c. c = sep) s))"
  by (induction s arbitrary: piece) auto

lemma site_az_of_total: "(\<exists>az. site_az_of site = Inr az) \<longleftrightarrow> CHR ''-'' \<in> set site"
proof -
  have "2 \<le> length (split_char CHR ''-'' [] site) \<longleftrightarrow> CHR ''-'' \<in> set site"
    by (auto simp: split_char_length filter_empty_conv Suc_le_eq)
  moreover have "(\<exists>az. site_az_of site = Inr az) \<longleftrightarrow> 2 \<le> length (split_char CHR ''-'' [] site)"
    by (auto simp: site_az_of_def split: list.splits)
  ultimately show ?thesis by simp
qed

lemma site_az_of_error: "site_az_of site = Inl e \<Longrightarrow> e = IndexError"
  by (auto simp: site_az_of_def split: list.splits)

lemma split_char_no_sep: "sep \<notin> set s \<Longrightarrow> split_char sep piece s = [rev piece @ s]"
  by (induction s arbitrary: piece) auto

lemma split_char_first:
  "sep \<notin> set a \<Longrightarrow> split_char sep piece (a @ sep # b) = (rev piece @ a) # split_char sep [] b"
  by (induction a arbitrary: piece) auto

subsection \<open>The site of a name\<close>

lemma site_of_name_form:
  assumes "site_of_name d = s" and "s \<noteq> []"
  obtains a k r where "d = a @ ''-'' @ k @ r" and "s = a @ ''-'' @ k"
    and "CHR ''-'' \<notin> set a" and "CHR ''-'' \<notin> set k"
proof -
  define l where "l = takeWhile is_lower d"
  define r1 where "r1 = dropWhile is_lower d"
  define g where "g = takeWhile is_digit r1"
  define r2 where "r2 = dropWhile is_digit r1"
  from assms have m: "re_match_site d \<noteq> None"
    by (auto simp: site_of_name_def split: option.splits)
  then obtain r3 where r2: "r2 = CHR ''-'' # r3"
    by (auto simp: re_match_site_def Let_def r1_def r2_def split: if_splits list.splits)
  from m have v: "re_match_site d = Some (l @ g, takeWhile is_digit r3)"
    using r2 by (auto simp: re_match_site_def Let_def l_def r1_def g_def r2_def
        split: if_splits list.splits)
  have "d = l @ r1" by (simp add: l_def r1_def)
  moreover have "r1 = g @ r2" by (simp add: g_def r2_def)
  moreover have "r3 = takeWhile is_digit r3 @ dropWhile is_digit r3" by simp
  ultimately have 1: "d = (l @ g) @ ''-'' @ takeWhile is_digit r3 @ dropWhile is_digit r3"
    using r2 by simp
  have 2: "s = (l @ g) @ ''-'' @ takeWhile is_digit r3"
    using assms(1) by (simp add: site_of_name_def v)
  have "\<forall>c\<in>set l. is_lower c" "\<forall>c\<in>set g. is_digit c" "\<forall>c\<in>set (takeWhile is_digit r3). is_digit c"
    by (auto simp: l_def g_def dest: set_takeWhileD)
  then have 3: "CHR ''-'' \<notin> set (l @ g)" and 4: "CHR ''-'' \<notin> set (takeWhile is_digit r3)"
    using hyphen_not_lower hyphen_not_digit by auto
  from 1 2 3 4 show thesis by (rule that)
qed

lemma local_to_prefix: "local_to site d \<Longrightarrow> prefix site d"
proof -
  assume "local_to site d"
  then have "site_of_name d = site" "site \<noteq> []"
    by (simp_all add: local_to_def)
  then obtain a k r where "d = a @ ''-'' @ k @ r" "site = a @ ''-'' @ k"
    by (rule site_of_name_form)
  then have "d = site @ r" by simp
  then show ?thesis by (rule prefixI)
qed

lemma local_site_az:
  assumes "local_to site site"
  shows "site_az_of site = Inr site"
proof -
  from assms have "site_of_name site = site" "site \<noteq> []"
    by (simp_all add: local_to_def)
  then obtain a k r where d: "site = a @ ''-'' @ k @ r" and s: "site = a @ ''-'' @ k"
    and a: "CHR ''-'' \<notin> set a" and k: "CHR ''-'' \<notin> set k"
    by (rule site_of_name_form)
  have "split_char CHR ''-'' [] site = a # split_char CHR ''-'' [] k"
    using split_char_first [OF a, of "[]" k] s by simp
  then have "split_char CHR ''-'' [] site = [a, k]"
    using split_char_no_sep [OF k, of "[]"] by simp
  then show ?thesis
    using s by (simp add: site_az_of_def)
qed

subsection \<open>The loops on a brick of the expected shape\<close>

lemma py_get_details:
  "py_get (details_json details) ''remote_device'' JNull
     = Inr (case remote_device details of None \<Rightarrow> JNull | Some r \<Rightarrow> JString r)"
  by (cases "remote_device details"; cases "interface_type details")
     (simp_all add: py_get_def details_json_def)

lemma interface_edges_Cons:
  "interface_edges s ((name, details) # interfaces)
     = (case remote_device details of
          None \<Rightarrow> []
        | Some t \<Rightarrow> if t \<noteq> [] then [\<lparr>source = s, target = t, ctype = ''physical''\<rparr>] else [])
       @ interface_edges s interfaces"
  by (simp add: interface_edges_def)

lemma interface_loop_shape:
  "interface_loop site_az s (map (\<lambda>(iface, details). (iface, details_json details)) interfaces)
       (connected, conns)
     = Inr (connected
              \<union> JString ` (source ` set (filter (\<lambda>e. prefix site_az (source e) \<or> prefix site_az (target e))
                                            (interface_edges s interfaces))
                           \<union> target ` set (filter (\<lambda>e. prefix site_az (source e) \<or> prefix site_az (target e))
                                            (interface_edges s interfaces))),
            conns @ map conn_json (filter (\<lambda>e. prefix site_az (source e) \<or> prefix site_az (target e))
                                     (interface_edges s interfaces)))"
proof (induction interfaces arbitrary: connected conns)
  case Nil
  show ?case by (simp add: interface_edges_def)
next
  case (Cons i interfaces)
  obtain name details where i: "i = (name, details)" by (cases i)
  show ?case
  proof (cases "remote_device details")
    case None
    then show ?thesis
      unfolding i by (simp add: py_get_details interface_edges_Cons Cons)
  next
    case (Some t)
    show ?thesis
    proof (cases "t \<noteq> [] \<and> (prefix site_az s \<or> prefix site_az t)")
      case False
      then show ?thesis
        unfolding i
        by (auto simp: py_get_details interface_edges_Cons Cons Some in_root_az_def)
    next
      case True
      then have r: "in_root_az site_az s (JString t) = Inr True"
        by (auto simp: in_root_az_def)
      from True have "interface_loop site_az s
            (map (\<lambda>(iface, details). (iface, details_json details)) (i # interfaces)) (connected, conns)
          = interface_loop site_az s
              (map (\<lambda>(iface, details). (iface, details_json details)) interfaces)
              (connected \<union> {JString s, JString t},
               conns @ [\<lparr>bc_source = s, bc_target = JString t, bc_type = ''physical''\<rparr>])"
        unfolding i by (simp add: py_get_details Some r)
      also have "\<dots> = Inr ((connected \<union> {JString s, JString t})
              \<union> JString ` (source ` set (filter (\<lambda>e. prefix site_az (source e) \<or> prefix site_az (target e))
                                            (interface_edges s interfaces))
                           \<union> target ` set (filter (\<lambda>e. prefix site_az (source e) \<or> prefix site_az (target e))
                                            (interface_edges s interfaces))),
            (conns @ [\<lparr>bc_source = s, bc_target = JString t, bc_type = ''physical''\<rparr>])
              @ map conn_json (filter (\<lambda>e. prefix site_az (source e) \<or> prefix site_az (target e))
                                     (interface_edges s interfaces)))"
        by (rule Cons)
      also have "\<dots> = Inr (connected
              \<union> JString ` (source ` set (filter (\<lambda>e. prefix site_az (source e) \<or> prefix site_az (target e))
                                            (interface_edges s (i # interfaces)))
                           \<union> target ` set (filter (\<lambda>e. prefix site_az (source e) \<or> prefix site_az (target e))
                                            (interface_edges s (i # interfaces)))),
            conns @ map conn_json (filter (\<lambda>e. prefix site_az (source e) \<or> prefix site_az (target e))
                                     (interface_edges s (i # interfaces))))"
        unfolding i using True
        by (auto simp: interface_edges_Cons Some conn_json_def)
      finally show ?thesis .
    qed
  qed
qed

lemma node_loop_shape:
  "node_loop site_az (nodes_json nodes) (connected, conns)
     = Inr (connected
              \<union> JString ` (source ` set (filter (\<lambda>e. prefix site_az (source e) \<or> prefix site_az (target e))
                                            (declared_connections nodes))
                           \<union> target ` set (filter (\<lambda>e. prefix site_az (source e) \<or> prefix site_az (target e))
                                            (declared_connections nodes))),
            conns @ map conn_json (filter (\<lambda>e. prefix site_az (source e) \<or> prefix site_az (target e))
                                     (declared_connections nodes)))"
proof (induction nodes arbitrary: connected conns)
  case Nil
  show ?case by (simp add: nodes_json_def declared_connections_def)
next
  case (Cons n nodes)
  obtain s interfaces where n: "n = (s, interfaces)" by (cases n)
  have j: "nodes_json (n # nodes)
      = (s, JObject (map (\<lambda>(iface, details). (iface, details_json details)) interfaces))
        # nodes_json nodes"
    by (simp add: nodes_json_def n)
  have d: "declared_connections (n # nodes) = interface_edges s interfaces @ declared_connections nodes"
    by (simp add: declared_connections_def n)
  show ?case
    unfolding j d
    by (simp add: py_items_def interface_loop_shape Cons image_Un Un_ac)
qed

lemma parse_brick_content_shape:
  assumes "site_az_of site = Inr site_az"
  shows "parse_brick_content (Some (brick_json brick)) site
     = Inr ({d \<in> fst ` set (DEVICE_DETAILS brick).
               \<exists>e\<in>set (filter (\<lambda>e. prefix site_az (source e) \<or> prefix site_az (target e))
                          (declared_connections (NODES_AND_INTERFACES brick))).
                 source e = d \<or> target e = d},
            map conn_json (filter (\<lambda>e. prefix site_az (source e) \<or> prefix site_az (target e))
                             (declared_connections (NODES_AND_INTERFACES brick))))"
proof -
  let ?F = "filter (\<lambda>e. prefix site_az (source e) \<or> prefix site_az (target e))
              (declared_connections (NODES_AND_INTERFACES brick))"
  have n: "node_loop site_az (nodes_json (NODES_AND_INTERFACES brick)) ({}, [])
      = Inr (JString ` (source ` set ?F \<union> target ` set ?F), map conn_json ?F)"
    using node_loop_shape [of site_az "NODES_AND_INTERFACES brick" "{}" "[]"] by simp
  have s: "set (filter (\<lambda>d. JString d \<in> JString ` (source ` set ?F \<union> target ` set ?F))
                   (map fst (DEVICE_DETAILS brick)))
      = {d \<in> fst ` set (DEVICE_DETAILS brick). \<exists>e\<in>set ?F. source e = d \<or> target e = d}"
    by (auto simp: image_iff)
  show ?thesis
    unfolding parse_brick_content_def brick_json_def
    by (simp add: py_get_def py_keys_def py_items_def assms n s del: set_filter)
qed

text \<open>
  C2, as stated, fails: in \<open>generate_bjs11_corp_nap.py\<close> two raw edges between the same
  two groups with different categories are both kept, so the pair has two canonical
  edges.
\<close>

theorem dedup_completeness_counterexample:
  "corp_nap_deduplicate_connections
     [\<lparr>source = ''a'', target = ''b'', ctype = ''customer''\<rparr>,
      \<lparr>source = ''a'', target = ''b'', ctype = ''ring''\<rparr>] Map.empty =
     [\<lparr>source = ''a'', target = ''b'', ctype = ''customer''\<rparr>,
      \<lparr>source = ''a'', target = ''b'', ctype = ''ring''\<rparr>]"
  by (simp add: corp_nap_deduplicate_connections_def resolve_def sorted_pair_def Let_def)

text \<open>
  C2, amended: for every list of raw edges and every raw edge in it whose endpoints
  resolve to two different groups, the output of the corp-NAP canonicalizer, and
  likewise that of the DSN canonicalizer, holds exactly one edge with that unordered
  pair of groups and that category, and the output of the UMN-PROD canonicalizer
  exactly one edge with that unordered pair of groups whatever the category; in each
  it is the first raw edge of the list with that key, resolved, whatever its
  direction. In the document of the console emitter, for every edge whose endpoints
  belong to two different nodes with non-empty keys, the two nodes have their shapes
  in the document and there is exactly one connector between these two shapes,
  whatever the direction and the interface type of the edges between the two nodes.
\<close>

theorem dedup_completeness:
  assumes "c \<in> set connections" and "\<not> self_loop (resolved device_groups c)"
  shows "(\<exists>e. find (\<lambda>e'. endpoints e' = endpoints (resolved device_groups c) \<and> ctype e' = ctype c)
                 (map (resolved device_groups) connections) = Some e
            \<and> filter (\<lambda>e'. endpoints e' = endpoints (resolved device_groups c) \<and> ctype e' = ctype c)
                 (corp_nap_deduplicate_connections connections device_groups) = [e])
       \<and> (\<exists>e. find (\<lambda>e'. endpoints e' = endpoints (resolved device_groups c) \<and> ctype e' = ctype c)
                 (map (resolved device_groups) connections) = Some e
            \<and> filter (\<lambda>e'. endpoints e' = endpoints (resolved device_groups c) \<and> ctype e' = ctype c)
                 (dsn_deduplicate_connections connections device_groups) = [e])
       \<and> (\<exists>e. find (\<lambda>e'. endpoints e' = endpoints (resolved device_groups c))
                 (map (resolved device_groups) connections) = Some e
            \<and> filter (\<lambda>e'. endpoints e' = endpoints (resolved device_groups c))
                 (umn_prod_deduplicate_connections connections device_groups) = [e])
       \<and> (\<forall>doc cc k1 k2.
              build_xml self_site self_fabric nodes conns = Inr doc \<and> distinct (map fst nodes)
              \<and> cc \<in> set conns
              \<and> holder nodes (conn_source cc) = Some k1
              \<and> holder nodes (conn_destination cc) = Some k2
              \<and> k1 \<noteq> [] \<and> k2 \<noteq> [] \<and> k1 \<noteq> k2 \<longrightarrow>
            (\<exists>n1 n2. (k1, n1) \<in> set nodes \<and> conn_source cc \<in> set (node_devices n1)
                   \<and> (k2, n2) \<in> set nodes \<and> conn_destination cc \<in> set (node_devices n2)
                   \<and> written_cell (node_cell (shape_id nodes k1) n1) \<in> set doc
                   \<and> written_cell (node_cell (shape_id nodes k2) n2) \<in> set doc)
            \<and> length (filter (\<lambda>e. is_edge e \<and> {edge_source e, edge_target e}
                                = {shape_id nodes k1, shape_id nodes k2})
                    doc) = 1)"
proof (intro conjI)
  have t: "ctype (resolved device_groups c) = ctype c"
    by (simp add: resolved_def)
  show "\<exists>e. find (\<lambda>e'. endpoints e' = endpoints (resolved device_groups c) \<and> ctype e' = ctype c)
                 (map (resolved device_groups) connections) = Some e
            \<and> filter (\<lambda>e'. endpoints e' = endpoints (resolved device_groups c) \<and> ctype e' = ctype c)
                 (corp_nap_deduplicate_connections connections device_groups) = [e]"
    using first_edge_of_key [of typed_key, OF _ assms] t
    by (simp add: typed_key_eq_iff corp_nap_deduplicate_connections_def typed_dedup_first_by)
  show "\<exists>e. find (\<lambda>e'. endpoints e' = endpoints (resolved device_groups c) \<and> ctype e' = ctype c)
                 (map (resolved device_groups) connections) = Some e
            \<and> filter (\<lambda>e'. endpoints e' = endpoints (resolved device_groups c) \<and> ctype e' = ctype c)
                 (dsn_deduplicate_connections connections device_groups) = [e]"
    using first_edge_of_key [of typed_key, OF _ assms] t
    by (simp add: typed_key_eq_iff dsn_deduplicate_connections_def typed_dedup_first_by)
  show "\<exists>e. find (\<lambda>e'. endpoints e' = endpoints (resolved device_groups c))
                 (map (resolved device_groups) connections) = Some e
            \<and> filter (\<lambda>e'. endpoints e' = endpoints (resolved device_groups c))
                 (umn_prod_deduplicate_connections connections device_groups) = [e]"
    using first_edge_of_key [of pair_key, OF _ assms]
    by (simp add: pair_key_eq_iff umn_prod_deduplicate_connections_def pair_dedup_first_by)
  show "\<forall>doc cc k1 k2.
              build_xml self_site self_fabric nodes conns = Inr doc \<and> distinct (map fst nodes)
              \<and> cc \<in> set conns
              \<and> holder nodes (conn_source cc) = Some k1
              \<and> holder nodes (conn_destination cc) = Some k2
              \<and> k1 \<noteq> [] \<and> k2 \<noteq> [] \<and> k1 \<noteq> k2 \<longrightarrow>
            (\<exists>n1 n2. (k1, n1) \<in> set nodes \<and> conn_source cc \<in> set (node_devices n1)
                   \<and> (k2, n2) \<in> set nodes \<and> conn_destination cc \<in> set (node_devices n2)
                   \<and> written_cell (node_cell (shape_id nodes k1) n1) \<in> set doc
                   \<and> written_cell (node_cell (shape_id nodes k2) n2) \<in> set doc)
            \<and> length (filter (\<lambda>e. is_edge e \<and> {edge_source e, edge_target e}
                                = {shape_id nodes k1, shape_id nodes k2})
                    doc) = 1"
  proof (intro allI impI, elim conjE, rule conjI)
    fix doc cc k1 k2
    assume doc: "build_xml self_site self_fabric nodes conns = Inr doc"
      and dist: "distinct (map fst nodes)" and cc: "cc \<in> set conns"
      and s: "holder nodes (conn_source cc) = Some k1"
      and d: "holder nodes (conn_destination cc) = Some k2"
      and ne: "k1 \<noteq> []" "k2 \<noteq> []"
    from holder_lists [OF s] obtain n1 where
      n1: "(k1, n1) \<in> set nodes" "conn_source cc \<in> set (node_devices n1)"
      by blast
    from holder_lists [OF d] obtain n2 where
      n2: "(k2, n2) \<in> set nodes" "conn_destination cc \<in> set (node_devices n2)"
      by blast
    have "written_cell (node_cell (shape_id nodes k1) n1) \<in> set doc"
      using doc dist n1(1) by (rule console_node_shape)
    moreover have "written_cell (node_cell (shape_id nodes k2) n2) \<in> set doc"
      using doc dist n2(1) by (rule console_node_shape)
    ultimately show "\<exists>n1 n2. (k1, n1) \<in> set nodes \<and> conn_source cc \<in> set (node_devices n1)
                   \<and> (k2, n2) \<in> set nodes \<and> conn_destination cc \<in> set (node_devices n2)
                   \<and> written_cell (node_cell (shape_id nodes k1) n1) \<in> set doc
                   \<and> written_cell (node_cell (shape_id nodes k2) n2) \<in> set doc"
      using n1 n2 by blast
    show "length (filter (\<lambda>e. is_edge e \<and> {edge_source e, edge_target e}
                                = {shape_id nodes k1, shape_id nodes k2})
                    doc) = 1"
      using doc dist cc s d ne by (rule console_node_pair_connector)
  qed
qed

theorem dedup_completeness_witness:
  "filter (\<lambda>e'. endpoints e' = {''b-r[12]'', ''a-r[12]''} \<and> ctype e' = ''physical'')
     (corp_nap_deduplicate_connections
        [\<lparr>source = ''a-r1'', target = ''b-r1'', ctype = ''physical''\<rparr>,
         \<lparr>source = ''b-r2'', target = ''a-r2'', ctype = ''physical''\<rparr>]
        (map_of [(''a-r1'', ''a-r[12]''), (''a-r2'', ''a-r[12]''),
                 (''b-r1'', ''b-r[12]''), (''b-r2'', ''b-r[12]'')]))
     = [\<lparr>source = ''a-r[12]'', target = ''b-r[12]'', ctype = ''physical''\<rparr>]
   \<and> filter (\<lambda>e'. endpoints e' = {''b-r[12]'', ''a-r[12]''} \<and> ctype e' = ''physical'')
     (dsn_deduplicate_connections
        [\<lparr>source = ''a-r1'', target = ''b-r1'', ctype = ''physical''\<rparr>,
         \<lparr>source = ''b-r2'', target = ''a-r2'', ctype = ''physical''\<rparr>]
        (map_of [(''a-r1'', ''a-r[12]''), (''a-r2'', ''a-r[12]''),
                 (''b-r1'', ''b-r[12]''), (''b-r2'', ''b-r[12]'')]))
     = [\<lparr>source = ''a-r[12]'', target = ''b-r[12]'', ctype = ''physical''\<rparr>]
   \<and> filter (\<lambda>e'. endpoints e' = {''b-r[12]'', ''a-r[12]''})
     (umn_prod_deduplicate_connections
        [\<lparr>source = ''a-r1'', target = ''b-r1'', ctype = ''physical''\<rparr>,
         \<lparr>source = ''b-r2'', target = ''a-r2'', ctype = ''physical''\<rparr>]
        (map_of [(''a-r1'', ''a-r[12]''), (''a-r2'', ''a-r[12]''),
                 (''b-r1'', ''b-r[12]''), (''b-r2'', ''b-r[12]'')]))
     = [\<lparr>source = ''a-r[12]'', target = ''b-r[12]'', ctype = ''physical''\<rparr>]
   \<and> length (filter (\<lambda>e. is_edge e \<and> {edge_source e, edge_target e} = {3, 2})
       [Vertex 2 ''<b>a</b><br/><i>Inter-AZ</i>''
          ''rounded=1;whiteSpace=wrap;html=1;fillColor=#E8E8E8;strokeColor=#666666;strokeWidth=2;fontStyle=0;fontSize=11;shadow=1;''
          120 400 220 90,
        Vertex 3 ''<b>b</b><br/><i>Inter-AZ</i>''
          ''rounded=1;whiteSpace=wrap;html=1;fillColor=#E8E8E8;strokeColor=#666666;strokeWidth=2;fontStyle=0;fontSize=11;shadow=1;''
          400 400 220 90,
        Edge 4 None
          ''edgeStyle=orthogonalEdgeStyle;rounded=1;orthogonalLoop=1;jettySize=auto;html=1;strokeColor=#333333;strokeWidth=2.5;shadow=1;''
          2 3]) = 1"
proof -
  let ?N = "[(''a'', \<lparr>node_label = ''a'', node_role = ''Inter-AZ'', node_color = ''#E8E8E8'',
                    node_x = 120, node_y = 400, node_devices = [''a'']\<rparr>),
           (''b'', \<lparr>node_label = ''b'', node_role = ''Inter-AZ'', node_color = ''#E8E8E8'',
                    node_x = 400, node_y = 400, node_devices = [''b'']\<rparr>)]"
  let ?ab = "\<lparr>conn_source = ''a'', conn_destination = ''b'', conn_interface = ''e1'',
            conn_interface_type = ''physical''\<rparr>"
  let ?ba = "\<lparr>conn_source = ''b'', conn_destination = ''a'', conn_interface = ''e7'',
            conn_interface_type = ''physical''\<rparr>"
  let ?doc = "[Vertex 2 ''<b>a</b><br/><i>Inter-AZ</i>''
          ''rounded=1;whiteSpace=wrap;html=1;fillColor=#E8E8E8;strokeColor=#666666;strokeWidth=2;fontStyle=0;fontSize=11;shadow=1;''
          120 400 220 90,
        Vertex 3 ''<b>b</b><br/><i>Inter-AZ</i>''
          ''rounded=1;whiteSpace=wrap;html=1;fillColor=#E8E8E8;strokeColor=#666666;strokeWidth=2;fontStyle=0;fontSize=11;shadow=1;''
          400 400 220 90,
        Edge 4 None
          ''edgeStyle=orthogonalEdgeStyle;rounded=1;orthogonalLoop=1;jettySize=auto;html=1;strokeColor=#333333;strokeWidth=2.5;shadow=1;''
          2 3]"
  have bx: "build_xml ''s1-1'' ''es-mgmt-cor'' ?N [?ab, ?ba] = Inr ?doc"
    by code_simp
  have dist: "distinct (map fst ?N)" by simp
  have hs: "holder ?N (conn_source ?ba) = Some ''b''" and hd: "holder ?N (conn_destination ?ba) = Some ''a''"
    by simp_all
  have ne: "''b'' \<noteq> [] \<and> ''a'' \<noteq> [] \<and> ''b'' \<noteq> ''a''" by simp
  have sh: "shape_id ?N ''b'' = 3" "shape_id ?N ''a'' = 2"
    by (simp_all add: shape_id_def)
  define dg where "dg = map_of [(''a-r1'', ''a-r[12]''), (''a-r2'', ''a-r[12]''),
                     (''b-r1'', ''b-r[12]''), (''b-r2'', ''b-r[12]'')]"
  let ?c = "\<lparr>source = ''b-r2'', target = ''a-r2'', ctype = ''physical''\<rparr>"
  let ?cs = "[\<lparr>source = ''a-r1'', target = ''b-r1'', ctype = ''physical''\<rparr>, ?c]"
  let ?e = "\<lparr>source = ''a-r[12]'', target = ''b-r[12]'', ctype = ''physical''\<rparr>"
  have r: "resolved dg ?c = \<lparr>source = ''b-r[12]'', target = ''a-r[12]'', ctype = ''physical''\<rparr>"
    by (simp add: resolved_def resolve_def dg_def)
  have m: "map (resolved dg) ?cs =
      [?e, \<lparr>source = ''b-r[12]'', target = ''a-r[12]'', ctype = ''physical''\<rparr>]"
    by (simp add: resolved_def resolve_def dg_def)
  have h1: "?c \<in> set ?cs" by simp
  have h2: "\<not> self_loop (resolved dg ?c)"
    unfolding r by (simp add: self_loop_def)
  have ep: "endpoints ?e = {''b-r[12]'', ''a-r[12]''}"
    by (auto simp: endpoints_def)
  have f1: "find (\<lambda>e'. endpoints e' = {''b-r[12]'', ''a-r[12]''} \<and> ctype e' = ''physical'')
             (map (resolved dg) ?cs) = Some ?e"
    unfolding m using ep by simp
  have f2: "find (\<lambda>e'. endpoints e' = {''b-r[12]'', ''a-r[12]''}) (map (resolved dg) ?cs) = Some ?e"
    unfolding m using ep by simp
  have er: "endpoints (resolved dg ?c) = {''b-r[12]'', ''a-r[12]''}"
    unfolding r by (simp add: endpoints_def)
  note t = dedup_completeness [OF h1 h2, of "''s1-1''" "''es-mgmt-cor''" ?N "[?ab, ?ba]"]
  have mem: "?ba \<in> set [?ab, ?ba]" by simp
  have "length (filter (\<lambda>e. is_edge e \<and> {edge_source e, edge_target e}
                      = {shape_id ?N ''b'', shape_id ?N ''a''})
                    ?doc) = 1"
    by (rule t [THEN conjunct2, THEN conjunct2, THEN conjunct2, rule_format,
                OF conjI [OF bx conjI [OF dist conjI [OF mem conjI [OF hs conjI [OF hd ne]]]]],
                THEN conjunct2])
  then have "length (filter (\<lambda>e. is_edge e \<and> {edge_source e, edge_target e} = {3, 2}) ?doc) = 1"
    unfolding sh .
  moreover from t [unfolded er f1 f2]
  have "filter (\<lambda>e'. endpoints e' = {''b-r[12]'', ''a-r[12]''} \<and> ctype e' = ''physical'')
     (corp_nap_deduplicate_connections ?cs dg) = [?e]
   \<and> filter (\<lambda>e'. endpoints e' = {''b-r[12]'', ''a-r[12]''} \<and> ctype e' = ''physical'')
     (dsn_deduplicate_connections ?cs dg) = [?e]
   \<and> filter (\<lambda>e'. endpoints e' = {''b-r[12]'', ''a-r[12]''})
     (umn_prod_deduplicate_connections ?cs dg) = [?e]"
    using f1 f2 by simp
  ultimately show ?thesis
    unfolding dg_def by simp
qed

text \<open>
  C1 on the console generator: the devices \<open>x-r1\<close> and \<open>x-r2\<close> form one node
  \<open>x-r[1,2]\<close>, and the one edge between them is emitted as a connector from that node
  to itself (cell 3, from shape 2 to shape 2). \<open>_build_xml\<close> has no test for equal
  endpoints, which every \<open>deduplicate_connections\<close> of the repository has.
\<close>

theorem console_self_loop_emitted:
  "console_generate_drawio_xml ''s1-1'' ''es-mgmt-cor''
     (extract_topology_data ''s1-1''
        [(''x-r1'', [(''e1'', \<lparr>remote_device = Some ''x-r2'', interface_type = None\<rparr>)])]
        [''x-r1'', ''x-r2'']) =
   Inr [Vertex 2 ''<b>x-r[1,2]</b><br/><i>Inter-AZ</i>''
          ''rounded=1;whiteSpace=wrap;html=1;fillColor=#E8E8E8;strokeColor=#666666;strokeWidth=2;fontStyle=0;fontSize=11;shadow=1;''
          120 400 220 90,
        Edge 3 None
          ''edgeStyle=orthogonalEdgeStyle;rounded=1;orthogonalLoop=1;jettySize=auto;html=1;strokeColor=#333333;strokeWidth=2.5;shadow=1;''
          2 2]"
  by code_simp

text \<open>
  C8 on the console generator: the brick declares one edge, from \<open>a\<close> to \<open>-r1\<close>. Both
  devices are placed: \<open>-r1\<close> is the one device of the node with the key \<open>''\<close> (its name
  without \<open>-r1\<close>), shape 2, and \<open>a\<close> is shape 3. The document has no connector: in
  \<open>_build_xml\<close> the test \<open>if not src_node or not dst_node\<close> takes the empty key for a
  missing one. The emitter of \<open>dsn_fabric_generator.py\<close> tests the identifiers, which
  are never empty, and its tree has the connector of every edge with both endpoints
  placed (\<open>dsn_connectors\<close>).
\<close>

theorem console_placed_edge_without_connector:
  "td_connections (extract_topology_data ''s1-1''
       [(''a'', [(''e1'', \<lparr>remote_device = Some ''-r1'', interface_type = None\<rparr>)])]
       [''a'', ''-r1'']) =
     [\<lparr>conn_source = ''a'', conn_destination = ''-r1'', conn_interface = ''e1'',
       conn_interface_type = ''physical''\<rparr>]
   \<and> console_generate_drawio_xml ''s1-1'' ''es-mgmt-cor''
     (extract_topology_data ''s1-1''
       [(''a'', [(''e1'', \<lparr>remote_device = Some ''-r1'', interface_type = None\<rparr>)])]
       [''a'', ''-r1'']) =
     Inr [Vertex 2 ''<b>-r1</b><br/><i>Inter-AZ</i>''
            ''rounded=1;whiteSpace=wrap;html=1;fillColor=#E8E8E8;strokeColor=#666666;strokeWidth=2;fontStyle=0;fontSize=11;shadow=1;''
            120 400 220 90,
          Vertex 3 ''<b>a</b><br/><i>Inter-AZ</i>''
            ''rounded=1;whiteSpace=wrap;html=1;fillColor=#E8E8E8;strokeColor=#666666;strokeWidth=2;fontStyle=0;fontSize=11;shadow=1;''
            400 400 220 90]"
  by code_simp

text \<open>
  C10: the console pipeline (grouping, layout and diagram generation) is a function of
  the brick data and the target site alone. The one place where a run could differ
  from another is the order in which Python iterates the set \<open>all_devices\<close>; whatever
  two orders are taken, the documents are equal, cell for cell, with the same
  positions and the same identifiers.
\<close>

theorem console_pipeline_deterministic:
  assumes "distinct it1" and "set it1 = extract_all_devices nodes_and_interfaces"
    and "distinct it2" and "set it2 = extract_all_devices nodes_and_interfaces"
  shows "console_generate_drawio_xml self_site self_fabric
           (extract_topology_data self_site nodes_and_interfaces it1)
       = console_generate_drawio_xml self_site self_fabric
           (extract_topology_data self_site nodes_and_interfaces it2)"
proof -
  from assms have "set it1 = set it2" by simp
  with assms(1,3) show ?thesis
    unfolding console_generate_drawio_xml_def
    by (simp only: extract_topology_data_order [of it1 it2])
qed

theorem console_pipeline_deterministic_witness:
  "console_generate_drawio_xml ''s1-1'' ''es-mgmt-cor''
     (extract_topology_data ''s1-1''
        [(''s1-1-b'', [(''e1'', \<lparr>remote_device = Some ''s1-1-a-r2'', interface_type = None\<rparr>)]),
         (''s1-1-a-r1'', [(''e1'', \<lparr>remote_device = Some ''s2-2-c'', interface_type = None\<rparr>)])]
        [''s1-1-b'', ''s1-1-a-r2'', ''s1-1-a-r1'', ''s2-2-c''])
   = console_generate_drawio_xml ''s1-1'' ''es-mgmt-cor''
     (extract_topology_data ''s1-1''
        [(''s1-1-b'', [(''e1'', \<lparr>remote_device = Some ''s1-1-a-r2'', interface_type = None\<rparr>)]),
         (''s1-1-a-r1'', [(''e1'', \<lparr>remote_device = Some ''s2-2-c'', interface_type = None\<rparr>)])]
        [''s2-2-c'', ''s1-1-a-r1'', ''s1-1-a-r2'', ''s1-1-b''])"
proof -
  let ?n = "[(''s1-1-b'', [(''e1'', \<lparr>remote_device = Some ''s1-1-a-r2'', interface_type = None\<rparr>)]),
         (''s1-1-a-r1'', [(''e1'', \<lparr>remote_device = Some ''s2-2-c'', interface_type = None\<rparr>)])]"
  have a: "extract_all_devices ?n = {''s1-1-b'', ''s1-1-a-r2'', ''s1-1-a-r1'', ''s2-2-c''}"
    by (auto simp: extract_all_devices_def extract_connections_def iface_connections_def)
  have 1: "distinct [''s1-1-b'', ''s1-1-a-r2'', ''s1-1-a-r1'', ''s2-2-c'']" by simp
  have 2: "set [''s1-1-b'', ''s1-1-a-r2'', ''s1-1-a-r1'', ''s2-2-c''] = extract_all_devices ?n"
    unfolding a by simp
  have 3: "distinct [''s2-2-c'', ''s1-1-a-r1'', ''s1-1-a-r2'', ''s1-1-b'']" by simp
  have 4: "set [''s2-2-c'', ''s1-1-a-r1'', ''s1-1-a-r2'', ''s1-1-b''] = extract_all_devices ?n"
    unfolding a by auto
  show ?thesis
    by (rule console_pipeline_deterministic [OF 1 2 3 4])
qed

text \<open>
  C5, as stated, fails: the first loop of \<open>parse_attr_content\<close> runs over all the lines
  before any connection is read, so every edge takes the device of the last
  \<open>HOSTNAME\<close> line. Here the line for \<open>d1\<close> follows \<open>HOSTNAME a\<close>, and its edge starts
  at \<open>b\<close>.
\<close>

theorem extractor_context_counterexample:
  "parse_attr_content
     (''HOSTNAME a'' @ [CHR 0x0A] @ ''CUSTOMERLAG x DESC d1'' @ [CHR 0x0A]
      @ ''HOSTNAME b'' @ [CHR 0x0A] @ ''CUSTOMERLAG y DESC d2'')
   = Inr ({''a'', ''b'', ''d1'', ''d2''},
          [\<lparr>source = ''b'', target = ''d1'', ctype = ''customer''\<rparr>,
           \<lparr>source = ''b'', target = ''d2'', ctype = ''customer''\<rparr>])"
  by (simp add: parse_attr_content_def parse_attr_lines_def strip_def is_space_def
      split_ws.simps falsy_def Let_def insert_commute)

text \<open>
  C5, amended: for every input each of whose hostname-declaration lines names a
  device, \<open>parse_attr_content\<close> returns, and every emitted RawEdge has as its source
  the device named by the last hostname-declaration line of the whole input, wherever
  the connection-bearing line stands; an input without a hostname line yields no edge.
\<close>

theorem extractor_source_is_last_hostname:
  assumes "\<forall>l\<in>set (hostname_lines (split_nl [] content)). 2 \<le> length (split_ws [] l)"
  shows "\<exists>devs conns. parse_attr_content content = Inr (devs, conns)
           \<and> (\<forall>e\<in>set conns. last_hostname (split_nl [] content) = Some (source e))
           \<and> (hostname_lines (split_nl [] content) = [] \<longrightarrow> conns = [])"
proof -
  from assms obtain st where "hostname_loop (split_nl [] content) (None, {}) = Inr st"
    using hostname_loop_total by blast
  then have "\<exists>r. parse_attr_content content = Inr r"
    by (cases st) (simp add: parse_attr_content_def parse_attr_lines_def)
  then obtain devs conns where r: "parse_attr_content content = Inr (devs, conns)"
    by (metis surj_pair)
  then have s: "last_hostname (split_nl [] content) = Some (source e)" if "e \<in> set conns" for e
    using that parse_attr_lines_sources by (simp add: parse_attr_content_def)
  have "conns = []" if "hostname_lines (split_nl [] content) = []"
  proof (cases conns)
    case Nil
    then show ?thesis .
  next
    case (Cons e es)
    then have "last_hostname (split_nl [] content) = Some (source e)"
      using s by simp
    with that show ?thesis
      by (simp add: last_hostname_def)
  qed
  with r s show ?thesis by blast
qed

theorem extractor_source_is_last_hostname_witness:
  "parse_attr_content (''CUSTOMERLAG x DESC d1'' @ [CHR 0x0A] @ ''HOSTNAME b'')
     = Inr ({''b'', ''d1''}, [\<lparr>source = ''b'', target = ''d1'', ctype = ''customer''\<rparr>])
   \<and> last_hostname (split_nl [] (''CUSTOMERLAG x DESC d1'' @ [CHR 0x0A] @ ''HOSTNAME b''))
     = Some ''b''"
proof -
  let ?c = "''CUSTOMERLAG x DESC d1'' @ [CHR 0x0A] @ ''HOSTNAME b''"
  let ?e = "\<lparr>source = ''b'', target = ''d1'', ctype = ''customer''\<rparr>"
  have p: "parse_attr_content ?c = Inr ({''b'', ''d1''}, [?e])"
    by (simp add: parse_attr_content_def parse_attr_lines_def strip_def is_space_def
        split_ws.simps falsy_def Let_def insert_commute)
  have h: "\<forall>l\<in>set (hostname_lines (split_nl [] ?c)). 2 \<le> length (split_ws [] l)"
    by (simp add: hostname_lines_def strip_def is_space_def split_ws.simps)
  from extractor_source_is_last_hostname [OF h] p
  have "\<forall>e\<in>set [?e]. last_hostname (split_nl [] ?c) = Some (source e)"
    by auto
  then have "last_hostname (split_nl [] ?c) = Some ''b''"
    by simp
  with p show ?thesis by (rule conjI)
qed

text \<open>
  C6: a line that, stripped, begins with \<open>IBGPNEIGH\<close>, \<open>EBGPNEIGH\<close> or \<open>RRCLIENTNEIGH\<close>
  yields nothing, whether or not it contains \<open>PEER\<close>: the result of the extractor is
  the result on the input with all such lines removed, so no RawEdge (and no device)
  comes from them.
\<close>

theorem denylisted_lines_yield_nothing:
  "parse_attr_content content
     = parse_attr_lines (filter (\<lambda>l. \<not> excluded_neighbor (strip l)) (split_nl [] content))"
  by (simp only: parse_attr_content_def parse_attr_lines_excluded)

theorem denylisted_lines_yield_nothing_witness:
  "parse_attr_content
     (''HOSTNAME b'' @ [CHR 0x0A] @ ''  IBGPNEIGH 10.0.0.1 PEER q1'' @ [CHR 0x0A]
      @ ''PEER 10.0.0.2 q2'' @ [CHR 0x0A] @ ''RRCLIENTNEIGH PEER 10.0.0.3 q3'')
   = Inr ({''b'', ''q2''}, [\<lparr>source = ''b'', target = ''q2'', ctype = ''nap_inter_region''\<rparr>])"
proof -
  let ?c = "''HOSTNAME b'' @ [CHR 0x0A] @ ''  IBGPNEIGH 10.0.0.1 PEER q1'' @ [CHR 0x0A]
      @ ''PEER 10.0.0.2 q2'' @ [CHR 0x0A] @ ''RRCLIENTNEIGH PEER 10.0.0.3 q3''"
  have f: "filter (\<lambda>l. \<not> excluded_neighbor (strip l)) (split_nl [] ?c)
      = [''HOSTNAME b'', ''PEER 10.0.0.2 q2'']"
    by (simp add: excluded_neighbor_def strip_def is_space_def)
  have "parse_attr_lines [''HOSTNAME b'', ''PEER 10.0.0.2 q2'']
      = Inr ({''b'', ''q2''}, [\<lparr>source = ''b'', target = ''q2'', ctype = ''nap_inter_region''\<rparr>])"
    by (simp add: parse_attr_lines_def strip_def is_space_def excluded_neighbor_def
        split_ws.simps falsy_def Let_def insert_commute)
  then show ?thesis
    unfolding denylisted_lines_yield_nothing [of ?c] f .
qed

text \<open>
  C7, as stated, fails: the retained devices are cut down to the keys of
  \<open>DEVICE_DETAILS\<close>, the retained edges are not. Here the neighbour \<open>s2-2-foo\<close> is not a
  key of \<open>DEVICE_DETAILS\<close>: the edge to it is retained, the device is not.
\<close>

theorem site_filter_counterexample:
  "parse_brick_content
     (Some (JObject
        [(''DEVICE_DETAILS'', JObject [(''s1-1-foo'', JObject [])]),
         (''NODES_AND_INTERFACES'',
          JObject [(''s1-1-foo'',
                    JObject [(''e1'', JObject [(''remote_device'', JString ''s2-2-foo'')])])])]))
     ''s1-1''
   = Inr ({''s1-1-foo''},
          [\<lparr>bc_source = ''s1-1-foo'', bc_target = JString ''s2-2-foo'', bc_type = ''physical''\<rparr>])"
  by (simp add: parse_brick_content_def py_get_def py_keys_def py_items_def site_az_of_def
      in_root_az_def)

text \<open>
  C7, amended. Take brick data of the expected shape and a target site that is a site
  name (letters, digits, a hyphen, digits), and suppose that every device named in the
  table whose name begins with the text of the target site is a device of that site.
  Then \<open>parse_brick_content\<close> returns; the retained edges are the declared edges with
  at least one endpoint local to the target site, in their order; the retained devices
  are the keys of \<open>DEVICE_DETAILS\<close> that are an endpoint of a retained edge; every
  retained external device has a retained edge to a local device; and an external
  device with no declared edge to a local device is not retained.
\<close>

theorem site_filter_closure:
  assumes site: "local_to site site"
    and names: "\<forall>e\<in>set (declared_connections (NODES_AND_INTERFACES brick)).
        (prefix site (source e) \<longrightarrow> local_to site (source e))
        \<and> (prefix site (target e) \<longrightarrow> local_to site (target e))"
  shows "\<exists>devices es.
      parse_brick_content (Some (brick_json brick)) site = Inr (devices, map conn_json es)
      \<and> es = filter (\<lambda>e. local_to site (source e) \<or> local_to site (target e))
                (declared_connections (NODES_AND_INTERFACES brick))
      \<and> devices = {d \<in> fst ` set (DEVICE_DETAILS brick). \<exists>e\<in>set es. source e = d \<or> target e = d}
      \<and> (\<forall>d\<in>devices. \<not> local_to site d \<longrightarrow>
            (\<exists>e\<in>set es. source e = d \<and> local_to site (target e)
                       \<or> target e = d \<and> local_to site (source e)))
      \<and> (\<forall>d. \<not> local_to site d
              \<and> (\<forall>e\<in>set (declared_connections (NODES_AND_INTERFACES brick)).
                    \<not> (source e = d \<and> local_to site (target e))
                    \<and> \<not> (target e = d \<and> local_to site (source e)))
            \<longrightarrow> d \<notin> devices)"
proof -
  let ?D = "declared_connections (NODES_AND_INTERFACES brick)"
  let ?es = "filter (\<lambda>e. local_to site (source e) \<or> local_to site (target e)) ?D"
  let ?devices = "{d \<in> fst ` set (DEVICE_DETAILS brick). \<exists>e\<in>set ?es. source e = d \<or> target e = d}"
  have az: "site_az_of site = Inr site"
    using site by (rule local_site_az)
  have "prefix site (source e) \<or> prefix site (target e)
      \<longleftrightarrow> local_to site (source e) \<or> local_to site (target e)" if "e \<in> set ?D" for e
    using that names local_to_prefix by blast
  then have f: "filter (\<lambda>e. prefix site (source e) \<or> prefix site (target e)) ?D = ?es"
    by (auto intro: filter_cong)
  have p: "parse_brick_content (Some (brick_json brick)) site = Inr (?devices, map conn_json ?es)"
    unfolding parse_brick_content_shape [OF az] f ..
  have c: "\<exists>e\<in>set ?es. source e = d \<and> local_to site (target e)
                       \<or> target e = d \<and> local_to site (source e)"
    if "d \<in> ?devices" "\<not> local_to site d" for d
  proof -
    from that(1) obtain e where e: "e \<in> set ?es" "source e = d \<or> target e = d"
      by blast
    from e(1) have "local_to site (source e) \<or> local_to site (target e)"
      by simp
    with e(2) that(2) have "source e = d \<and> local_to site (target e)
        \<or> target e = d \<and> local_to site (source e)"
      by blast
    with e(1) show ?thesis by blast
  qed
  have d: "d \<notin> ?devices"
    if "\<not> local_to site d
        \<and> (\<forall>e\<in>set ?D. \<not> (source e = d \<and> local_to site (target e))
                      \<and> \<not> (target e = d \<and> local_to site (source e)))" for d
  proof
    assume "d \<in> ?devices"
    with c that obtain e where "e \<in> set ?es"
      "source e = d \<and> local_to site (target e) \<or> target e = d \<and> local_to site (source e)"
      by blast
    moreover from this(1) have "e \<in> set ?D" by simp
    ultimately show False using that by blast
  qed
  from p c d show ?thesis by blast
qed

theorem site_filter_closure_witness:
  "\<exists>devices.
     parse_brick_content
       (Some (brick_json
          \<lparr>DEVICE_DETAILS = [(''s1-1-foo'', JObject []), (''s2-2-foo'', JObject []),
                             (''s3-3-bar'', JObject [])],
           NODES_AND_INTERFACES =
             [(''s1-1-foo'', [(''e1'', \<lparr>remote_device = Some ''s2-2-foo'', interface_type = None\<rparr>)]),
              (''s3-3-bar'', [(''e1'', \<lparr>remote_device = Some ''s2-2-foo'', interface_type = None\<rparr>)])]\<rparr>))
       ''s1-1''
     = Inr (devices,
            [\<lparr>bc_source = ''s1-1-foo'', bc_target = JString ''s2-2-foo'', bc_type = ''physical''\<rparr>])
     \<and> ''s1-1-foo'' \<in> devices \<and> ''s2-2-foo'' \<in> devices \<and> ''s3-3-bar'' \<notin> devices"
proof -
  let ?N = "[(''s1-1-foo'', [(''e1'', \<lparr>remote_device = Some ''s2-2-foo'', interface_type = None\<rparr>)]),
              (''s3-3-bar'', [(''e1'', \<lparr>remote_device = Some ''s2-2-foo'', interface_type = None\<rparr>)])]"
  let ?B = "\<lparr>DEVICE_DETAILS = [(''s1-1-foo'', JObject []), (''s2-2-foo'', JObject []),
                             (''s3-3-bar'', JObject [])],
           NODES_AND_INTERFACES = ?N\<rparr>"
  let ?e = "\<lparr>source = ''s1-1-foo'', target = ''s2-2-foo'', ctype = ''physical''\<rparr>"
  let ?e' = "\<lparr>source = ''s3-3-bar'', target = ''s2-2-foo'', ctype = ''physical''\<rparr>"
  have dc: "declared_connections ?N = [?e, ?e']"
    by (simp add: declared_connections_def interface_edges_def)
  have l: "local_to ''s1-1'' ''s1-1''" "local_to ''s1-1'' ''s1-1-foo''"
    "\<not> local_to ''s1-1'' ''s2-2-foo''" "\<not> local_to ''s1-1'' ''s3-3-bar''"
    by code_simp+
  have h1: "local_to ''s1-1'' ''s1-1''" by (rule l)
  have h2: "\<forall>e\<in>set (declared_connections (NODES_AND_INTERFACES ?B)).
        (prefix ''s1-1'' (source e) \<longrightarrow> local_to ''s1-1'' (source e))
        \<and> (prefix ''s1-1'' (target e) \<longrightarrow> local_to ''s1-1'' (target e))"
    using l by (simp add: dc)
  have es: "filter (\<lambda>e. local_to ''s1-1'' (source e) \<or> local_to ''s1-1'' (target e))
              (declared_connections (NODES_AND_INTERFACES ?B)) = [?e]"
    using l by (simp add: dc)
  from site_filter_closure [OF h1 h2]
  obtain devices where
    p: "parse_brick_content (Some (brick_json ?B)) ''s1-1'' = Inr (devices, map conn_json [?e])"
    and d: "devices = {d \<in> fst ` set (DEVICE_DETAILS ?B). \<exists>e\<in>set [?e]. source e = d \<or> target e = d}"
    unfolding es by blast
  from d have "''s1-1-foo'' \<in> devices \<and> ''s2-2-foo'' \<in> devices \<and> ''s3-3-bar'' \<notin> devices"
    by simp
  with p show ?thesis
    by (auto simp: conn_json_def)
qed

text \<open>
  C9, as stated, fails: the site string \<open>abc\<close> does not follow the naming pattern, yet
  \<open>construct_brick_url\<close> and \<open>construct_urls\<close> return their URLs for it and signal
  nothing.
\<close>

theorem site_validation_counterexample:
  "\<not> site_naming_pattern ''abc''
   \<and> construct_brick_url ''abc'' ''es-mgmt-cor'' =
       Inr ''https://code.amazon.com/packages/SwitchBuilderBrickDef-EC2-ABC/blobs/mainline/--/configuration/etc/brick/EC2-ABC/abc-es-mgmt-cor.brick''
   \<and> construct_urls ''abc'' =
       [''https://code.amazon.com/packages/GenevaBuilderDCNE/blobs/mainline/--/targetspec/dc-corp-abc/abc-co-agg-r/abc-co-agg-r3/dsn.attr'',
        ''https://code.amazon.com/packages/GenevaBuilderDCNE/blobs/mainline/--/targetspec/dc-corp-abc/abc-co-agg-r/abc-co-agg-r1/dsn.attr'',
        ''https://code.amazon.com/packages/GenevaBuilderDCNE/blobs/mainline/--/targetspec/dc-corp-abc/abc-co-agg-r/abc-co-agg-r2/dsn.attr'']"
proof -
  have "re_match_site ''abc'' = None"
    by (simp add: re_match_site_def is_lower_def is_digit_def)
  then have "\<not> site_naming_pattern ''abc''"
    using re_match_site_iff [of "''abc''"] by simp
  moreover have "construct_brick_url ''abc'' ''es-mgmt-cor'' =
       Inr ''https://code.amazon.com/packages/SwitchBuilderBrickDef-EC2-ABC/blobs/mainline/--/configuration/etc/brick/EC2-ABC/abc-es-mgmt-cor.brick''"
  proof -
    have "upper ''abc'' = ''ABC''" by code_simp
    then show ?thesis
      by (simp add: construct_brick_url_def re_match_region_def is_lower_def Let_def)
  qed
  moreover have "construct_urls ''abc'' =
       [''https://code.amazon.com/packages/GenevaBuilderDCNE/blobs/mainline/--/targetspec/dc-corp-abc/abc-co-agg-r/abc-co-agg-r3/dsn.attr'',
        ''https://code.amazon.com/packages/GenevaBuilderDCNE/blobs/mainline/--/targetspec/dc-corp-abc/abc-co-agg-r/abc-co-agg-r1/dsn.attr'',
        ''https://code.amazon.com/packages/GenevaBuilderDCNE/blobs/mainline/--/targetspec/dc-corp-abc/abc-co-agg-r/abc-co-agg-r2/dsn.attr'']"
    by (simp add: construct_urls_def dsn_url_def)
  ultimately show ?thesis by blast
qed

text \<open>
  C9, amended: \<open>UMNTopologyGenerator.__init__\<close> raises \<open>ValueError\<close> exactly for the site
  strings that do not begin with lowercase letters, digits, a hyphen and digits, and
  builds the generator for every string that does; \<open>construct_brick_url\<close> raises
  \<open>ValueError\<close> exactly when the site does not begin with three lowercase letters; and
  \<open>construct_urls\<close> returns its three URLs for every site string, raising for none.
\<close>

theorem site_validation:
  "(umn_generator_init site brick_file output_dir = Inl ValueError
      \<longleftrightarrow> \<not> site_naming_pattern site)
   \<and> ((\<exists>g. umn_generator_init site brick_file output_dir = Inr g)
      \<longleftrightarrow> site_naming_pattern site)
   \<and> (construct_brick_url site fabric = Inl ValueError
      \<longleftrightarrow> \<not> (3 \<le> length site \<and> list_all is_lower (take 3 site)))
   \<and> length (construct_urls site) = 3"
proof -
  have "umn_generator_init site brick_file output_dir = Inl ValueError
      \<longleftrightarrow> re_match_site site = None"
    by (simp add: umn_generator_init_def split: option.splits)
  moreover have "(\<exists>g. umn_generator_init site brick_file output_dir = Inr g)
      \<longleftrightarrow> re_match_site site \<noteq> None"
    by (simp add: umn_generator_init_def split: option.splits)
  moreover have "construct_brick_url site fabric = Inl ValueError
      \<longleftrightarrow> \<not> (3 \<le> length site \<and> list_all is_lower (take 3 site))"
    by (simp add: construct_brick_url_def re_match_region_def Let_def)
  moreover have "length (construct_urls site) = 3"
    by (simp add: construct_urls_def Let_def)
  ultimately show ?thesis
    using re_match_site_iff [of site] by auto
qed

theorem site_validation_witness:
  "site_naming_pattern ''bjs11-11''
   \<and> umn_generator_init ''bjs11-11'' ''bjs.brick'' ''out'' =
       Inr \<lparr>gen_site = ''bjs11-11'', gen_brick_file = ''bjs.brick'', gen_output_dir = ''out'',
            root_az = ''bjs11'', root_dc = ''11''\<rparr>
   \<and> \<not> site_naming_pattern ''bjs11''
   \<and> umn_generator_init ''bjs11'' ''bjs.brick'' ''out'' = Inl ValueError"
proof -
  have a: "umn_generator_init ''bjs11-11'' ''bjs.brick'' ''out'' =
       Inr \<lparr>gen_site = ''bjs11-11'', gen_brick_file = ''bjs.brick'', gen_output_dir = ''out'',
            root_az = ''bjs11'', root_dc = ''11''\<rparr>"
    by (simp add: umn_generator_init_def re_match_site_def is_lower_def is_digit_def Let_def)
  have b: "umn_generator_init ''bjs11'' ''bjs.brick'' ''out'' = Inl ValueError"
    by (simp add: umn_generator_init_def re_match_site_def is_lower_def is_digit_def Let_def)
  from a b show ?thesis
    using site_validation [of "''bjs11-11''" "''bjs.brick''" "''out''" "''es-mgmt-cor''"]
      site_validation [of "''bjs11''" "''bjs.brick''" "''out''" "''es-mgmt-cor''"]
    by simp
qed

end
